theory Spec2Isabelle
  imports Main
begin

section \<open>Python values and errors\<close>

text \<open>
  The program is Python: integers are unbounded (\<open>int\<close>), and an operation that raises
  is modelled as a result \<open>Inl e\<close> of the sum type \<open>py_error + 'a\<close>. An exception is
  never caught by the game logic, so it ends the run and the half-updated state is lost.
\<close>

datatype py_error = ValueError | IndexError | TypeError | AttributeError

definition bindE :: "py_error + 'a \<Rightarrow> ('a \<Rightarrow> py_error + 'b) \<Rightarrow> py_error + 'b" where
  "bindE m f = (case m of Inl e \<Rightarrow> Inl e | Inr v \<Rightarrow> f v)"

text \<open>\<open>str(n)\<close> for an integer, as the f-strings of the messages print it.\<close>

fun digits_of :: "nat \<Rightarrow> string" where
  "digits_of n =
     (if n < 10 then [char_of (48 + n)]
      else digits_of (n div 10) @ [char_of (48 + n mod 10)])"

declare digits_of.simps [simp del]

definition str_int :: "int \<Rightarrow> string" where
  "str_int i = (if i < 0 then CHR ''-'' # digits_of (nat (- i)) else digits_of (nat i))"

subsection \<open>Lists\<close>

text \<open>
  \<open>xs[i]\<close>: a negative index counts from the end, an index outside the list raises
  \<open>IndexError\<close>. \<open>py_index\<close> is the position that \<open>xs[i]\<close> denotes.
\<close>

definition py_index :: "'a list \<Rightarrow> int \<Rightarrow> py_error + nat" where
  "py_index xs i =
     (let n = int (length xs); j = (if i < 0 then i + n else i)
      in if 0 \<le> j \<and> j < n then Inr (nat j) else Inl IndexError)"

definition py_get :: "'a list \<Rightarrow> int \<Rightarrow> py_error + 'a" where
  "py_get xs i = bindE (py_index xs i) (\<lambda>j. Inr (xs ! j))"

text \<open>\<open>g[y][x]\<close> and \<open>g[y][x] = v\<close> on a list of rows (the rows are distinct objects).\<close>

definition py_get2 :: "'a list list \<Rightarrow> int \<Rightarrow> int \<Rightarrow> py_error + 'a" where
  "py_get2 g y0 x0 = bindE (py_get g y0) (\<lambda>row. py_get row x0)"

definition py_set2 :: "'a list list \<Rightarrow> int \<Rightarrow> int \<Rightarrow> 'a \<Rightarrow> py_error + 'a list list" where
  "py_set2 g y0 x0 v =
     bindE (py_index g y0) (\<lambda>j.
     bindE (py_index (g ! j) x0) (\<lambda>i. Inr (g[j := (g ! j)[i := v]])))"

text \<open>\<open>range(a, b)\<close>, and \<open>xs.pop(n)\<close> / removal of the object at position \<open>n\<close>.\<close>

definition py_range :: "int \<Rightarrow> int \<Rightarrow> int list" where
  "py_range a b = [a..b - 1]"

definition remove_nth :: "nat \<Rightarrow> 'a list \<Rightarrow> 'a list" where
  "remove_nth n xs = take n xs @ drop (Suc n) xs"

text \<open>
  A search that returns the first object satisfying a test returns, in the model, its
  position in the list: the position stands for the object reference.
\<close>

fun index_where :: "('a \<Rightarrow> bool) \<Rightarrow> 'a list \<Rightarrow> nat option" where
  "index_where P [] = None"
| "index_where P (a # as) = (if P a then Some 0 else map_option Suc (index_where P as))"

text \<open>Writing one value into a sequence of cells \<open>(y, x)\<close> of a grid, in order.\<close>

fun fill_cells :: "'a \<Rightarrow> (int \<times> int) list \<Rightarrow> 'a list list \<Rightarrow> py_error + 'a list list" where
  "fill_cells v [] g = Inr g"
| "fill_cells v (c # cs) g = bindE (py_set2 g (fst c) (snd c) v) (fill_cells v cs)"

subsection \<open>The random module\<close>

text \<open>
  The state of Python's global generator is a stream of integers, one consumed per call.
  \<open>randint(a, b)\<close> raises \<open>ValueError\<close> on an empty range and otherwise returns an
  integer of \<open>[a, b]\<close>, any of them for a suitable stream; \<open>choice\<close> raises \<open>IndexError\<close>
  on an empty sequence; \<open>random()\<close> returns \<open>k / 2^53\<close> with \<open>0 \<le> k < 2^53\<close>, modelled
  by \<open>k\<close>.
\<close>

type_synonym rng = "nat \<Rightarrow> int"

definition next_rng :: "rng \<Rightarrow> rng" where
  "next_rng r = (\<lambda>n. r (Suc n))"

definition randint :: "int \<Rightarrow> int \<Rightarrow> rng \<Rightarrow> py_error + (int \<times> rng)" where
  "randint a b r =
     (if b < a then Inl ValueError
      else Inr (a + r 0 mod (b - a + 1), next_rng r))"

definition choice :: "'a list \<Rightarrow> rng \<Rightarrow> py_error + ('a \<times> rng)" where
  "choice xs r =
     (if xs = [] then Inl IndexError
      else Inr (xs ! nat (r 0 mod int (length xs)), next_rng r))"

definition random_unit :: "rng \<Rightarrow> int \<times> rng" where
  "random_unit r = (r 0 mod 2 ^ 53, next_rng r)"

text \<open>
  The float literals \<open>0.5\<close>, \<open>0.35\<close>, \<open>0.6\<close>, \<open>0.85\<close> in units of \<open>2^-53\<close> (each is a
  multiple of it), so that \<open>random() < c\<close> is a comparison of integers.
\<close>

definition F_0_5 :: int where "F_0_5 = 4503599627370496"
definition F_0_35 :: int where "F_0_35 = 3152519739159347"
definition F_0_6 :: int where "F_0_6 = 5404319552844595"
definition F_0_85 :: int where "F_0_85 = 7656119366529843"

text \<open>
  The remaining float arithmetic (the trigonometry and rounding of the field of view, the
  depth scaling of monsters) is not interpreted: its operations are the fields of a
  record that the functions using them take as a parameter.
\<close>

record 'f float_ops =
  to_float :: "int \<Rightarrow> 'f"
  (* float(n) *)
  f_add :: "'f \<Rightarrow> 'f \<Rightarrow> 'f"
  (* x + dx *)
  int_round :: "'f \<Rightarrow> int"
  (* int(round(x)) *)
  angle_of :: "nat \<Rightarrow> 'f"
  (* angle_step * math.pi / 180 *)
  f_cos :: "'f \<Rightarrow> 'f"
  f_sin :: "'f \<Rightarrow> 'f"
  hp_scale_of :: "int \<Rightarrow> 'f"
  (* 1 + (depth - 1) * 0.15 *)
  atk_scale_of :: "int \<Rightarrow> 'f"
  (* 1 + (depth - 1) * 0.1 *)
  int_mul :: "int \<Rightarrow> 'f \<Rightarrow> int"
  (* int(n * scale) *)

section \<open>Constants and tables\<close>

definition WALL :: string where "WALL = ''#''"
definition FLOOR :: string where "FLOOR = ''.''"
definition DOOR :: string where "DOOR = ''+''"
definition STAIRS :: string where "STAIRS = ''>''"
definition PLAYER :: string where "PLAYER = ''@''"
definition POTION :: string where "POTION = ''!''"
definition WEAPON :: string where "WEAPON = ''/''"
definition GOLD :: string where "GOLD = ''$''"
definition SCROLL :: string where "SCROLL = ''?''"
definition MERCHANT :: string where "MERCHANT = ''M''"

definition C_DEFAULT :: int where "C_DEFAULT = 0"
definition C_PLAYER :: int where "C_PLAYER = 1"
definition C_WALL :: int where "C_WALL = 2"
definition C_MONSTER :: int where "C_MONSTER = 3"
definition C_ITEM :: int where "C_ITEM = 4"
definition C_GOLD :: int where "C_GOLD = 5"
definition C_UI :: int where "C_UI = 6"
definition C_STAIRS :: int where "C_STAIRS = 7"
definition C_DANGER :: int where "C_DANGER = 8"
definition C_HEAL :: int where "C_HEAL = 9"
definition C_MERCHANT :: int where "C_MERCHANT = 10"

text \<open>A row of \<open>MONSTER_DEFS\<close> is (ch, name, hp, atk, xp, color).\<close>

definition MONSTER_DEFS :: "(string \<times> string \<times> int \<times> int \<times> int \<times> int) list" where
  "MONSTER_DEFS =
     [(''r'', ''rat'', 6, 2, 5, C_MONSTER),
      (''s'', ''snake'', 8, 3, 8, C_MONSTER),
      (''g'', ''goblin'', 12, 4, 12, C_MONSTER),
      (''k'', ''kobold'', 15, 5, 16, C_MONSTER),
      (''o'', ''orc'', 22, 7, 25, C_DANGER),
      (''S'', ''skeleton'', 20, 6, 22, C_DEFAULT),
      (''T'', ''troll'', 35, 9, 40, C_DANGER),
      (''W'', ''wraith'', 28, 11, 50, C_DANGER),
      (''D'', ''dragon'', 60, 15, 100, C_DANGER)]"

definition WEAPON_NAMES :: "(string \<times> int) list" where
  "WEAPON_NAMES =
     [(''rusty dagger'', 2), (''short sword'', 4), (''mace'', 6), (''long sword'', 8),
      (''battle axe'', 10), (''war hammer'', 12), (''enchanted blade'', 15)]"

definition SCROLL_EFFECTS :: "(string \<times> string) list" where
  "SCROLL_EFFECTS =
     [(''fireball'', ''damage''), (''lightning'', ''damage''), (''healing'', ''heal''),
      (''strength'', ''buff_atk''), (''shield'', ''buff_def''), (''mapping'', ''reveal'')]"

section \<open>Entities\<close>

text \<open>
  An item's or a stock entry's \<open>value\<close> is an integer (potion, weapon, gold) or the pair
  of a scroll's name and effect.
\<close>

datatype ival = IntV int | EffV string string

text \<open>An entry of a merchant's stock (a dict in the source).\<close>

record stock_entry =
  ch :: string
  name :: string
  color :: int
  kind :: string
  "value" :: ival
  price :: int

text \<open>
  \<open>Entity\<close> carries position, glyph, name and colour; the keyword attributes that the
  constructor injects (\<open>hp\<close>, \<open>atk\<close>, \<open>kind\<close>, \<open>value\<close>, \<open>stock\<close>) are the extra fields of
  the record extensions below.
\<close>

record entity =
  x :: int
  y :: int
  ch :: string
  name :: string
  color :: int

record item = entity +
  kind :: string
  "value" :: ival

record monster = entity +
  hp :: int
  max_hp :: int
  atk :: int
  xp :: int

record merchant_entity = entity +
  stock :: "stock_entry list"

record player = entity +
  max_hp :: int
  hp :: int
  base_atk :: int
  atk_bonus :: int
  defense :: int
  xp :: int
  level :: int
  gold :: int
  weapon :: string
  kills :: int
  depth :: int
  max_depth :: int
  inventory :: "item list"

definition Player :: "int \<Rightarrow> int \<Rightarrow> player" where
  "Player x0 y0 =
     \<lparr> x = x0, y = y0, ch = PLAYER, name = ''you'', color = C_PLAYER,
       max_hp = 30, hp = 30, base_atk = 3, atk_bonus = 0, defense = 0, xp = 0,
       level = 1, gold = 0, weapon = ''fists'', kills = 0, depth = 1, max_depth = 1,
       inventory = [] \<rparr>"

text \<open>The property \<open>Player.atk\<close>.\<close>

definition p_atk :: "player \<Rightarrow> int" where
  "p_atk p = base_atk p + atk_bonus p"

definition xp_to_next :: "player \<Rightarrow> int" where
  "xp_to_next p = level p * 20"

text \<open>
  One iteration of the \<open>while\<close> body of \<open>gain_xp\<close>: the assignments run in order, so
  \<open>hp\<close> takes the already raised \<open>max_hp\<close>.
\<close>

definition level_up :: "player \<Rightarrow> player" where
  "level_up p =
     (let p1 = p\<lparr>player.xp := player.xp p - xp_to_next p\<rparr>;
          p2 = p1\<lparr>level := level p1 + 1\<rparr>;
          p3 = p2\<lparr>player.max_hp := player.max_hp p2 + 8\<rparr>;
          p4 = p3\<lparr>player.hp := player.max_hp p3\<rparr>
      in p4\<lparr>base_atk := base_atk p4 + 1\<rparr>)"

function gain_xp_loop :: "player \<Rightarrow> bool \<Rightarrow> player \<times> bool" where
  "gain_xp_loop p leveled =
     (if player.xp p \<ge> xp_to_next p then gain_xp_loop (level_up p) True else (p, leveled))"
  by pat_completeness auto
termination
  by (relation "measures [\<lambda>(p, l). nat (1 - level p), \<lambda>(p, l). nat (player.xp p)]")
     (auto simp: level_up_def xp_to_next_def Let_def)

declare gain_xp_loop.simps [simp del]

definition gain_xp :: "player \<Rightarrow> int \<Rightarrow> player \<times> bool" where
  "gain_xp p amount = gain_xp_loop (p\<lparr>player.xp := player.xp p + amount\<rparr>) False"

section \<open>Merchant stock\<close>

text \<open>The two \<open>for _ in range(random.randint(1, 2))\<close> loops of \<open>_generate_merchant_stock\<close>.\<close>

fun stock_potions ::
  "nat \<Rightarrow> int \<Rightarrow> stock_entry list \<Rightarrow> rng \<Rightarrow> py_error + (stock_entry list \<times> rng)" where
  "stock_potions 0 dep st r = Inr (st, r)"
| "stock_potions (Suc n) dep st r =
     bindE (randint 10 20 r) (\<lambda>(a, r1).
     bindE (randint 15 25 r1) (\<lambda>(pr, r2).
       let heal = a + dep * 2 in
       stock_potions n dep
         (st @ [\<lparr> stock_entry.ch = POTION,
                  stock_entry.name = ''potion (+'' @ str_int heal @ '' HP)'',
                  stock_entry.color = C_HEAL, stock_entry.kind = ''potion'',
                  stock_entry.value = IntV heal, price = pr \<rparr>]) r2))"

fun stock_scrolls ::
  "nat \<Rightarrow> stock_entry list \<Rightarrow> rng \<Rightarrow> py_error + (stock_entry list \<times> rng)" where
  "stock_scrolls 0 st r = Inr (st, r)"
| "stock_scrolls (Suc n) st r =
     bindE (choice SCROLL_EFFECTS r) (\<lambda>(effect, r1).
     bindE (randint 30 50 r1) (\<lambda>(pr, r2).
       stock_scrolls n
         (st @ [\<lparr> stock_entry.ch = SCROLL,
                  stock_entry.name = ''scroll of '' @ fst effect,
                  stock_entry.color = C_ITEM, stock_entry.kind = ''scroll'',
                  stock_entry.value = EffV (fst effect) (snd effect), price = pr \<rparr>]) r2))"

definition generate_merchant_stock :: "int \<Rightarrow> rng \<Rightarrow> py_error + (stock_entry list \<times> rng)" where
  "generate_merchant_stock dep r =
     bindE (randint 1 2 r) (\<lambda>(n1, r1).
     bindE (stock_potions (nat n1) dep [] r1) (\<lambda>(st1, r2).
     bindE (randint 0 (dep + 1) r2) (\<lambda>(k, r3).
     let tier = min k (int (length WEAPON_NAMES) - 1) in
     bindE (py_get WEAPON_NAMES tier) (\<lambda>(wname, bonus).
     let pr = 20 + bonus * 3;
         st2 = st1 @ [\<lparr> stock_entry.ch = WEAPON, stock_entry.name = wname,
                         stock_entry.color = C_ITEM, stock_entry.kind = ''weapon'',
                         stock_entry.value = IntV bonus, price = pr \<rparr>] in
     bindE (randint 1 2 r3) (\<lambda>(n2, r4).
     stock_scrolls (nat n2) st2 r4)))))"

section \<open>DungeonLevel\<close>

type_synonym room = "int \<times> int \<times> int \<times> int"

record dungeon_level =
  w :: int
  h :: int
  depth :: int
  tiles :: "string list list"
  revealed :: "bool list list"
  visible :: "bool list list"
  rooms :: "room list"
  monsters :: "monster list"
  items :: "item list"
  stairs_pos :: "(int \<times> int) option"
  merchant :: "merchant_entity option"

subsection \<open>Generation\<close>

definition rooms_overlap :: "room \<Rightarrow> room \<Rightarrow> bool" where
  "rooms_overlap a b =
     (case a of (ax, ay, aw, ah) \<Rightarrow> case b of (bx, by, bw, bh) \<Rightarrow>
        \<not> (ax + aw + 1 < bx \<or> bx + bw + 1 < ax \<or> ay + ah + 1 < by \<or> by + bh + 1 < ay))"

text \<open>The cells \<open>(y, x)\<close> of a rectangle in the order of the nested \<open>for\<close> loops.\<close>

definition rect_cells :: "int \<Rightarrow> int \<Rightarrow> int \<Rightarrow> int \<Rightarrow> (int \<times> int) list" where
  "rect_cells y0 y1 x0 x1 =
     concat (map (\<lambda>cy. map (\<lambda>cx. (cy, cx)) (py_range x0 x1)) (py_range y0 y1))"

definition carve_room :: "dungeon_level \<Rightarrow> room \<Rightarrow> py_error + dungeon_level" where
  "carve_room d room =
     (case room of (rx, ry, rw, rh) \<Rightarrow>
        bindE (fill_cells FLOOR (rect_cells ry (ry + rh) rx (rx + rw)) (tiles d))
          (\<lambda>t. Inr (d\<lparr>tiles := t\<rparr>)))"

text \<open>The two \<open>while\<close> loops of \<open>_connect\<close>: along the row \<open>cy\<close>, then along the column \<open>cx\<close>.\<close>

function carve_h :: "string list list \<Rightarrow> int \<Rightarrow> int \<Rightarrow> int \<Rightarrow> py_error + string list list" where
  "carve_h t cy cx x2 =
     (if cx \<noteq> x2 then
        (case py_set2 t cy cx FLOOR of
           Inl e \<Rightarrow> Inl e
         | Inr t' \<Rightarrow> carve_h t' cy (cx + (if x2 > cx then 1 else - 1)) x2)
      else Inr t)"
  by pat_completeness auto
termination
  by (relation "measure (\<lambda>(t, cy, cx, x2). nat \<bar>x2 - cx\<bar>)") auto

declare carve_h.simps [simp del]

function carve_v :: "string list list \<Rightarrow> int \<Rightarrow> int \<Rightarrow> int \<Rightarrow> py_error + string list list" where
  "carve_v t cx cy y2 =
     (if cy \<noteq> y2 then
        (case py_set2 t cy cx FLOOR of
           Inl e \<Rightarrow> Inl e
         | Inr t' \<Rightarrow> carve_v t' cx (cy + (if y2 > cy then 1 else - 1)) y2)
      else Inr t)"
  by pat_completeness auto
termination
  by (relation "measure (\<lambda>(t, cx, cy, y2). nat \<bar>y2 - cy\<bar>)") auto

declare carve_v.simps [simp del]

definition connect :: "dungeon_level \<Rightarrow> room \<Rightarrow> room \<Rightarrow> py_error + dungeon_level" where
  "connect d r1 r2 =
     (case r1 of (ax, ay, aw, ah) \<Rightarrow> case r2 of (bx, by, bw, bh) \<Rightarrow>
        let x1 = ax + aw div 2; y1 = ay + ah div 2;
            x2 = bx + bw div 2; y2 = by + bh div 2 in
        bindE (carve_h (tiles d) y1 x1 x2) (\<lambda>t1.
        bindE (carve_v t1 x2 y1 y2) (\<lambda>t2. Inr (d\<lparr>tiles := t2\<rparr>))))"

text \<open>The \<open>for _ in range(200)\<close> loop of \<open>_generate\<close>; the first argument counts the attempts left.\<close>

fun place_rooms :: "nat \<Rightarrow> int \<Rightarrow> dungeon_level \<Rightarrow> rng \<Rightarrow> py_error + (dungeon_level \<times> rng)" where
  "place_rooms 0 num_rooms d r = Inr (d, r)"
| "place_rooms (Suc n) num_rooms d r =
     (if int (length (rooms d)) \<ge> num_rooms then Inr (d, r)
      else
        bindE (randint 5 12 r) (\<lambda>(rw, r1).
        bindE (randint 4 8 r1) (\<lambda>(rh, r2).
        bindE (randint 1 (w d - rw - 2) r2) (\<lambda>(rx, r3).
        bindE (randint 1 (h d - rh - 2) r3) (\<lambda>(ry, r4).
          let room = (rx, ry, rw, rh) in
          if \<not> list_ex (rooms_overlap room) (rooms d) then
            bindE (carve_room d room) (\<lambda>d1.
            bindE (if rooms d1 \<noteq> [] then
                     bindE (py_get (rooms d1) (- 1)) (\<lambda>prev. connect d1 prev room)
                   else Inr d1) (\<lambda>d2.
            place_rooms n num_rooms (d2\<lparr>rooms := rooms d2 @ [room]\<rparr>) r4))
          else place_rooms n num_rooms d r4)))))"

text \<open>One iteration of the inner monster loop, the inner loop, and the loop over the rooms.\<close>

definition spawn_monster ::
  "'f float_ops \<Rightarrow> room \<Rightarrow> dungeon_level \<Rightarrow> rng \<Rightarrow> py_error + (dungeon_level \<times> rng)" where
  "spawn_monster F room d r =
     (case room of (rx, ry, rw, rh) \<Rightarrow>
        bindE (randint (rx + 1) (rx + rw - 2) r) (\<lambda>(mx, r1).
        bindE (randint (ry + 1) (ry + rh - 2) r1) (\<lambda>(my, r2).
        bindE (py_get2 (tiles d) my mx) (\<lambda>t.
          if t = FLOOR then
            bindE (randint 0 (depth d) r2) (\<lambda>(k, r3).
            let tier = min k (int (length MONSTER_DEFS) - 1) in
            bindE (py_get MONSTER_DEFS tier) (\<lambda>(mch, mname, mhp, matk, mxp, mcolor).
              let hp_scale = hp_scale_of F (depth d);
                  atk_scale = atk_scale_of F (depth d);
                  m = \<lparr> x = mx, y = my, ch = mch, name = mname, color = mcolor,
                        monster.hp = int_mul F mhp hp_scale,
                        monster.max_hp = int_mul F mhp hp_scale,
                        atk = int_mul F matk atk_scale, monster.xp = mxp \<rparr>
              in Inr (d\<lparr>monsters := monsters d @ [m]\<rparr>, r3)))
          else Inr (d, r2)))))"

fun spawn_in_room ::
  "'f float_ops \<Rightarrow> nat \<Rightarrow> room \<Rightarrow> dungeon_level \<Rightarrow> rng \<Rightarrow> py_error + (dungeon_level \<times> rng)" where
  "spawn_in_room F 0 room d r = Inr (d, r)"
| "spawn_in_room F (Suc n) room d r =
     bindE (spawn_monster F room d r) (\<lambda>(d1, r1). spawn_in_room F n room d1 r1)"

fun place_monsters ::
  "'f float_ops \<Rightarrow> room list \<Rightarrow> dungeon_level \<Rightarrow> rng \<Rightarrow> py_error + (dungeon_level \<times> rng)" where
  "place_monsters F [] d r = Inr (d, r)"
| "place_monsters F (room # rs) d r =
     bindE (randint 0 (2 + depth d div 2) r) (\<lambda>(n, r1).
     bindE (spawn_in_room F (nat n) room d r1) (\<lambda>(d1, r2). place_monsters F rs d1 r2))"

definition item_entity :: "int \<Rightarrow> int \<Rightarrow> string \<Rightarrow> string \<Rightarrow> int \<Rightarrow> string \<Rightarrow> ival \<Rightarrow> item" where
  "item_entity x0 y0 c n col k v =
     \<lparr> x = x0, y = y0, ch = c, name = n, color = col, kind = k, value = v \<rparr>"

definition place_item :: "dungeon_level \<Rightarrow> int \<Rightarrow> int \<Rightarrow> rng \<Rightarrow> py_error + (dungeon_level \<times> rng)" where
  "place_item d x0 y0 r =
     (case random_unit r of (roll, r1) \<Rightarrow>
        if roll < F_0_35 then
          bindE (randint 8 20 r1) (\<lambda>(heal, r2).
            Inr (d\<lparr>items := items d @
                   [item_entity x0 y0 POTION (''potion (+'' @ str_int heal @ '' HP)'') C_HEAL
                      ''potion'' (IntV heal)]\<rparr>, r2))
        else if roll < F_0_6 then
          bindE (randint 0 (depth d) r1) (\<lambda>(k, r2).
          let tier = min k (int (length WEAPON_NAMES) - 1) in
          bindE (py_get WEAPON_NAMES tier) (\<lambda>(wname, bonus).
            Inr (d\<lparr>items := items d @
                   [item_entity x0 y0 WEAPON wname C_ITEM ''weapon'' (IntV bonus)]\<rparr>, r2)))
        else if roll < F_0_85 then
          bindE (randint 5 (15 + depth d * 5) r1) (\<lambda>(amount, r2).
            Inr (d\<lparr>items := items d @
                   [item_entity x0 y0 GOLD (str_int amount @ '' gold'') C_GOLD
                      ''gold'' (IntV amount)]\<rparr>, r2))
        else
          bindE (choice SCROLL_EFFECTS r1) (\<lambda>(effect, r2).
            Inr (d\<lparr>items := items d @
                   [item_entity x0 y0 SCROLL (''scroll of '' @ fst effect) C_ITEM
                      ''scroll'' (EffV (fst effect) (snd effect))]\<rparr>, r2)))"

fun place_items :: "room list \<Rightarrow> dungeon_level \<Rightarrow> rng \<Rightarrow> py_error + (dungeon_level \<times> rng)" where
  "place_items [] d r = Inr (d, r)"
| "place_items (room # rs) d r =
     (case room of (rx, ry, rw, rh) \<Rightarrow>
      case random_unit r of (u, r1) \<Rightarrow>
        if u < F_0_5 then
          bindE (randint (rx + 1) (rx + rw - 2) r1) (\<lambda>(ix, r2).
          bindE (randint (ry + 1) (ry + rh - 2) r2) (\<lambda>(iy, r3).
          bindE (py_get2 (tiles d) iy ix) (\<lambda>t.
            if t = FLOOR then
              bindE (place_item d ix iy r3) (\<lambda>(d1, r4). place_items rs d1 r4)
            else place_items rs d r3)))
        else place_items rs d r1)"

definition place_merchant :: "dungeon_level \<Rightarrow> rng \<Rightarrow> py_error + (dungeon_level \<times> rng)" where
  "place_merchant d r =
     (if length (rooms d) > 2 then
        bindE (choice (butlast (tl (rooms d))) r) (\<lambda>(mroom, r1).
        case mroom of (rx, ry, rw, rh) \<Rightarrow>
        let mx = rx + rw div 2; my = ry + rh div 2 in
        bindE (generate_merchant_stock (depth d) r1) (\<lambda>(st, r2).
          Inr (d\<lparr>merchant := Some \<lparr> x = mx, y = my, ch = MERCHANT, name = ''merchant'',
                                     color = C_MERCHANT, stock = st \<rparr>\<rparr>, r2)))
      else Inr (d, r))"

definition place_stairs :: "dungeon_level \<Rightarrow> py_error + dungeon_level" where
  "place_stairs d =
     bindE (py_get (rooms d) (- 1)) (\<lambda>lr.
     case lr of (rx, ry, rw, rh) \<Rightarrow>
     let sx = rx + rw div 2; sy = ry + rh div 2 in
     bindE (py_set2 (tiles d) sy sx STAIRS) (\<lambda>t.
       Inr (d\<lparr>tiles := t, stairs_pos := Some (sx, sy)\<rparr>)))"

definition generate :: "'f float_ops \<Rightarrow> dungeon_level \<Rightarrow> rng \<Rightarrow> py_error + (dungeon_level \<times> rng)" where
  "generate F d r =
     bindE (randint 5 9 r) (\<lambda>(num_rooms, r1).
     bindE (place_rooms 200 num_rooms d r1) (\<lambda>(d1, r2).
     bindE (place_stairs d1) (\<lambda>d2.
     bindE (place_monsters F (tl (rooms d2)) d2 r2) (\<lambda>(d3, r3).
     bindE (place_items (rooms d3) d3 r3) (\<lambda>(d4, r4).
     place_merchant d4 r4)))))"

text \<open>The constructor: \<open>[[v] * width for _ in range(height)]\<close> is empty for a negative size.\<close>

definition DungeonLevel ::
  "'f float_ops \<Rightarrow> int \<Rightarrow> int \<Rightarrow> int \<Rightarrow> rng \<Rightarrow> py_error + (dungeon_level \<times> rng)" where
  "DungeonLevel F width height dep r =
     generate F
       \<lparr> w = width, h = height, depth = dep,
         tiles = replicate (nat height) (replicate (nat width) WALL),
         revealed = replicate (nat height) (replicate (nat width) False),
         visible = replicate (nat height) (replicate (nat width) False),
         rooms = [], monsters = [], items = [], stairs_pos = None, merchant = None \<rparr> r"

subsection \<open>Queries\<close>

definition monster_at :: "dungeon_level \<Rightarrow> int \<Rightarrow> int \<Rightarrow> nat option" where
  "monster_at d x0 y0 = index_where (\<lambda>m. x m = x0 \<and> y m = y0) (monsters d)"

definition item_at :: "dungeon_level \<Rightarrow> int \<Rightarrow> int \<Rightarrow> nat option" where
  "item_at d x0 y0 = index_where (\<lambda>i. x i = x0 \<and> y i = y0) (items d)"

definition is_walkable :: "dungeon_level \<Rightarrow> int \<Rightarrow> int \<Rightarrow> py_error + bool" where
  "is_walkable d x0 y0 =
     (if 0 \<le> x0 \<and> x0 < w d \<and> 0 \<le> y0 \<and> y0 < h d then
        bindE (py_get2 (tiles d) y0 x0) (\<lambda>t. Inr (t \<noteq> WALL))
      else Inr False)"

subsection \<open>Field of view\<close>

text \<open>
  One ray: the inner \<open>for _ in range(radius)\<close> loop, with the steps left as first
  argument after the direction. Both \<open>break\<close>s return the level as it is.
\<close>

fun cast_ray ::
  "'f float_ops \<Rightarrow> 'f \<Rightarrow> 'f \<Rightarrow> nat \<Rightarrow> 'f \<Rightarrow> 'f \<Rightarrow> dungeon_level \<Rightarrow> py_error + dungeon_level" where
  "cast_ray F dx dy 0 fx fy d = Inr d"
| "cast_ray F dx dy (Suc n) fx fy d =
     (let ix = int_round F fx; iy = int_round F fy in
      if 0 \<le> ix \<and> ix < w d \<and> 0 \<le> iy \<and> iy < h d then
        bindE (py_set2 (visible d) iy ix True) (\<lambda>vis.
        bindE (py_set2 (revealed d) iy ix True) (\<lambda>rev.
        bindE (py_get2 (tiles d) iy ix) (\<lambda>t.
          let d' = d\<lparr>visible := vis, revealed := rev\<rparr> in
          if t = WALL then Inr d'
          else cast_ray F dx dy n (f_add F fx dx) (f_add F fy dy) d')))
      else Inr d)"

fun cast_rays ::
  "'f float_ops \<Rightarrow> int \<Rightarrow> int \<Rightarrow> int \<Rightarrow> nat list \<Rightarrow> dungeon_level \<Rightarrow> py_error + dungeon_level" where
  "cast_rays F px py radius [] d = Inr d"
| "cast_rays F px py radius (angle_step # rest) d =
     (let angle = angle_of F angle_step;
          dx = f_cos F angle;
          dy = f_sin F angle in
      bindE (cast_ray F dx dy (nat radius) (to_float F px) (to_float F py) d)
        (cast_rays F px py radius rest))"

definition compute_fov ::
  "'f float_ops \<Rightarrow> dungeon_level \<Rightarrow> int \<Rightarrow> int \<Rightarrow> int \<Rightarrow> py_error + dungeon_level" where
  "compute_fov F d px py radius =
     cast_rays F px py radius [0..<360]
       (d\<lparr>visible := map (map (\<lambda>_. False)) (visible d)\<rparr>)"

definition reveal_all :: "dungeon_level \<Rightarrow> py_error + dungeon_level" where
  "reveal_all d =
     bindE (fill_cells True (rect_cells 0 (h d) 0 (w d)) (revealed d))
       (\<lambda>rev. Inr (d\<lparr>revealed := rev\<rparr>))"

section \<open>Game\<close>

text \<open>
  \<open>_shop_stock\<close> is a reference: to the list created by the constructor or left over
  from a previous level (\<open>Own\<close>, a list no other object holds), or to the stock list of
  the current level's merchant (\<open>Merchant_stock\<close>, set by bumping into the merchant), so
  that \<open>pop\<close> on it changes the merchant's stock. The global random generator is a field
  of the state. The curses screen is not part of the state: drawing changes nothing, and
  the key that \<open>getch\<close> returns is an argument of the function that reads it.
\<close>

datatype stock_ref = Own "stock_entry list" | Merchant_stock

record game =
  running :: bool
  messages :: "string list"
  player :: player
  dungeon :: "dungeon_level option"
  state :: string
  shop_stock :: stock_ref
  rng :: rng

definition MAP_W :: int where "MAP_W = 70"
definition MAP_H :: int where "MAP_H = 22"

text \<open>The key codes of curses that the input handler names.\<close>

definition KEY_DOWN :: int where "KEY_DOWN = 258"
definition KEY_UP :: int where "KEY_UP = 259"
definition KEY_LEFT :: int where "KEY_LEFT = 260"
definition KEY_RIGHT :: int where "KEY_RIGHT = 261"
definition KEY_ENTER :: int where "KEY_ENTER = 343"

definition Game :: "rng \<Rightarrow> game" where
  "Game r =
     \<lparr> running = True, messages = [], player = Player 0 0, dungeon = None,
       state = ''title'', shop_stock = Own [], rng = r \<rparr>"

definition msg :: "game \<Rightarrow> string \<Rightarrow> game" where
  "msg g text =
     (let ms = messages g @ [text]
      in g\<lparr>messages := (if length ms > 5 then remove_nth 0 ms else ms)\<rparr>)"

text \<open>
  The list that \<open>_shop_stock\<close> refers to, and its replacement after a mutation. A
  \<open>Merchant_stock\<close> reference exists only while the level has its merchant; the other
  branches are there for totality.
\<close>

definition stock_list :: "game \<Rightarrow> stock_entry list" where
  "stock_list g =
     (case shop_stock g of
        Own st \<Rightarrow> st
      | Merchant_stock \<Rightarrow>
          (case dungeon g of None \<Rightarrow> []
           | Some d \<Rightarrow> (case merchant d of None \<Rightarrow> [] | Some mer \<Rightarrow> stock mer)))"

definition set_stock_list :: "game \<Rightarrow> stock_entry list \<Rightarrow> game" where
  "set_stock_list g st =
     (case shop_stock g of
        Own _ \<Rightarrow> g\<lparr>shop_stock := Own st\<rparr>
      | Merchant_stock \<Rightarrow>
          g\<lparr>dungeon :=
              map_option (\<lambda>d. d\<lparr>merchant := map_option (\<lambda>mer. mer\<lparr>stock := st\<rparr>) (merchant d)\<rparr>)
                (dungeon g)\<rparr>)"

text \<open>
  \<open>new_level\<close> replaces the level; a \<open>_shop_stock\<close> that referred to the old merchant's
  list keeps that list, which nothing else holds any more.
\<close>

definition new_level :: "'f float_ops \<Rightarrow> game \<Rightarrow> int \<Rightarrow> py_error + game" where
  "new_level F g dep =
     bindE (DungeonLevel F MAP_W MAP_H dep (rng g)) (\<lambda>(d, r1).
     let g1 = g\<lparr>dungeon := Some d, shop_stock := Own (stock_list g), rng := r1\<rparr>;
         p1 = (player g1)\<lparr>player.depth := dep\<rparr>;
         p2 = p1\<lparr>max_depth := max (max_depth p1) dep\<rparr> in
     bindE (py_get (rooms d) 0) (\<lambda>(rx, ry, rw, rh).
     let p3 = p2\<lparr>x := rx + rw div 2\<rparr>;
         p4 = p3\<lparr>y := ry + rh div 2\<rparr> in
     bindE (compute_fov F d (x p4) (y p4) 6) (\<lambda>d1.
       Inr (msg (g1\<lparr>player := p4, dungeon := Some d1\<rparr>)
              (''You descend to depth '' @ str_int dep @ ''.'')))))"

subsection \<open>Player actions\<close>

text \<open>
  \<open>_attack_monster(mon)\<close>: the argument is an object of the monster list, here its
  position \<open>i\<close> in the list.
\<close>

definition attack_monster :: "game \<Rightarrow> nat \<Rightarrow> py_error + game" where
  "attack_monster g i =
     (case dungeon g of None \<Rightarrow> Inl AttributeError
      | Some d \<Rightarrow>
        bindE (randint 0 2 (rng g)) (\<lambda>(r, rng1).
        let p = player g;
            mon0 = monsters d ! i;
            dmg = max 1 (p_atk p - r);
            mon = mon0\<lparr>monster.hp := monster.hp mon0 - dmg\<rparr>;
            g0 = g\<lparr>rng := rng1\<rparr> in
        if monster.hp mon \<le> 0 then
          let g1 = msg g0 (''You slay the '' @ name mon @ ''! (+'' @ str_int (monster.xp mon)
                           @ '' XP)'');
              d1 = d\<lparr>monsters := remove_nth i (monsters d)\<rparr>;
              p1 = p\<lparr>kills := kills p + 1\<rparr>;
              res = gain_xp p1 (monster.xp mon);
              g2 = g1\<lparr>dungeon := Some d1, player := fst res\<rparr>;
              g3 = (if snd res
                    then msg g2 (''Level up! You are now level '' @ str_int (level (fst res))
                                 @ ''!'')
                    else g2)
          in Inr (if name mon = ''dragon'' \<and> player.depth (player g3) \<ge> 8
                  then g3\<lparr>state := ''win''\<rparr> else g3)
        else
          Inr (msg (g0\<lparr>dungeon := Some (d\<lparr>monsters := (monsters d)[i := mon]\<rparr>)\<rparr>)
                 (''You hit the '' @ name mon @ '' for '' @ str_int dmg @ '' dmg. (''
                  @ str_int (monster.hp mon) @ ''/'' @ str_int (monster.max_hp mon) @ '')''))))"

text \<open>\<open>_pickup(item)\<close>: the argument is an object of the level's item list, here its position.\<close>

definition pickup :: "game \<Rightarrow> nat \<Rightarrow> py_error + game" where
  "pickup g j =
     (case dungeon g of None \<Rightarrow> Inl AttributeError
      | Some d \<Rightarrow>
        let p = player g; it = items d ! j in
        bindE
          (if kind it = ''potion'' then
             Inr (msg (g\<lparr>player := p\<lparr>inventory := inventory p @ [it]\<rparr>\<rparr>)
                    (''Picked up '' @ name it @ ''. (i to use)''))
           else if kind it = ''weapon'' then
             (case value it of
                EffV _ _ \<Rightarrow> Inl TypeError
              | IntV v \<Rightarrow>
                  if v > atk_bonus p then
                    Inr (msg (g\<lparr>player := p\<lparr>weapon := name it, atk_bonus := v\<rparr>\<rparr>)
                           (''Equipped '' @ name it @ ''! (ATK +'' @ str_int v @ '')''))
                  else
                    Inr (msg g (''The '' @ name it @ '' is weaker than your '' @ weapon p
                                @ ''.'')))
           else if kind it = ''gold'' then
             (case value it of
                EffV _ _ \<Rightarrow> Inl TypeError
              | IntV v \<Rightarrow>
                  let p1 = p\<lparr>gold := gold p + v\<rparr> in
                  Inr (msg (g\<lparr>player := p1\<rparr>)
                         (''Found '' @ str_int v @ '' gold! (Total: '' @ str_int (gold p1)
                          @ '')'')))
           else if kind it = ''scroll'' then
             Inr (msg (g\<lparr>player := p\<lparr>inventory := inventory p @ [it]\<rparr>\<rparr>)
                    (''Picked up '' @ name it @ ''. (i to use)''))
           else Inr g)
          (\<lambda>g1. Inr (g1\<lparr>dungeon := Some (d\<lparr>items := remove_nth j (items d)\<rparr>)\<rparr>)))"

definition try_move :: "'f float_ops \<Rightarrow> game \<Rightarrow> int \<Rightarrow> int \<Rightarrow> py_error + game" where
  "try_move F g dx dy =
     (case dungeon g of None \<Rightarrow> Inl AttributeError
      | Some d \<Rightarrow>
        let nx = x (player g) + dx; ny = y (player g) + dy in
        if (case merchant d of None \<Rightarrow> False | Some mer \<Rightarrow> x mer = nx \<and> y mer = ny) then
          Inr (g\<lparr>shop_stock := Merchant_stock, state := ''shop''\<rparr>)
        else
          (case monster_at d nx ny of
             Some i \<Rightarrow> attack_monster g i
           | None \<Rightarrow>
               bindE (is_walkable d nx ny) (\<lambda>wk.
               if wk then
                 let g1 = g\<lparr>player := (player g)\<lparr>x := nx, y := ny\<rparr>\<rparr> in
                 bindE (compute_fov F d nx ny 6) (\<lambda>d1.
                 let g2 = g1\<lparr>dungeon := Some d1\<rparr> in
                 case item_at d1 nx ny of
                   Some j \<Rightarrow> pickup g2 j
                 | None \<Rightarrow> Inr g2)
               else Inr g)))"

definition try_descend :: "'f float_ops \<Rightarrow> game \<Rightarrow> py_error + game" where
  "try_descend F g =
     (case dungeon g of None \<Rightarrow> Inl AttributeError
      | Some d \<Rightarrow>
        let p = player g in
        if (case stairs_pos d of None \<Rightarrow> False | Some (sx, sy) \<Rightarrow> x p = sx \<and> y p = sy)
        then new_level F g (player.depth p + 1)
        else Inr (msg g ''There are no stairs here.''))"

subsection \<open>Monster AI\<close>

text \<open>
  The body of the loop of \<open>_monster_turns\<close> for the monster at position \<open>i\<close> of the list
  (the sweep changes neither the length nor the order of the list); the flag tells
  whether the body executed \<open>return\<close>.
\<close>

definition monster_turn :: "game \<Rightarrow> nat \<Rightarrow> py_error + (game \<times> bool)" where
  "monster_turn g i =
     (case dungeon g of None \<Rightarrow> Inl AttributeError
      | Some d \<Rightarrow>
        let p = player g; m = monsters d ! i in
        bindE (py_get2 (visible d) (y m) (x m)) (\<lambda>v.
        if \<not> v then Inr (g, False)
        else
          let dist = \<bar>x m - x p\<bar> + \<bar>y m - y p\<bar> in
          if dist \<le> 1 then
            bindE (randint 0 2 (rng g)) (\<lambda>(r, rng1).
            let dmg = max 1 (atk m - defense p - r);
                p1 = p\<lparr>player.hp := player.hp p - dmg\<rparr>;
                g1 = msg (g\<lparr>player := p1, rng := rng1\<rparr>)
                       (''The '' @ name m @ '' hits you for '' @ str_int dmg @ ''!'') in
            if player.hp p1 \<le> 0 then Inr (g1\<lparr>state := ''dead''\<rparr>, True)
            else Inr (g1, False))
          else if dist \<le> 8 then
            let dx = (if x p \<noteq> x m then (if x p > x m then 1 else - 1) else 0);
                dy = (if y p \<noteq> y m then (if y p > y m then 1 else - 1) else 0) in
            bindE (if dx \<noteq> 0 then
                     bindE (is_walkable d (x m + dx) (y m))
                       (\<lambda>wk. Inr (wk \<and> monster_at d (x m + dx) (y m) = None))
                   else Inr False) (\<lambda>step_x.
            if step_x then
              Inr (g\<lparr>dungeon := Some (d\<lparr>monsters := (monsters d)[i := m\<lparr>x := x m + dx\<rparr>]\<rparr>)\<rparr>,
                   False)
            else
              bindE (if dy \<noteq> 0 then
                       bindE (is_walkable d (x m) (y m + dy))
                         (\<lambda>wk. Inr (wk \<and> monster_at d (x m) (y m + dy) = None))
                     else Inr False) (\<lambda>step_y.
              if step_y then
                Inr (g\<lparr>dungeon := Some (d\<lparr>monsters := (monsters d)[i := m\<lparr>y := y m + dy\<rparr>]\<rparr>)\<rparr>,
                     False)
              else Inr (g, False)))
          else Inr (g, False)))"

fun monster_turns_loop :: "nat list \<Rightarrow> game \<Rightarrow> py_error + game" where
  "monster_turns_loop [] g = Inr g"
| "monster_turns_loop (i # rest) g =
     bindE (monster_turn g i) (\<lambda>(g1, returned).
       if returned then Inr g1 else monster_turns_loop rest g1)"

definition monster_turns :: "game \<Rightarrow> py_error + game" where
  "monster_turns g =
     (case dungeon g of None \<Rightarrow> Inl AttributeError
      | Some d \<Rightarrow> monster_turns_loop [0..<length (monsters d)] g)"

subsection \<open>Input in the play state\<close>

definition move_and_sweep :: "'f float_ops \<Rightarrow> game \<Rightarrow> int \<Rightarrow> int \<Rightarrow> py_error + game" where
  "move_and_sweep F g dx dy =
     bindE (if dx \<noteq> 0 \<or> dy \<noteq> 0 then try_move F g dx dy else Inr g) monster_turns"

definition handle_input :: "'f float_ops \<Rightarrow> game \<Rightarrow> int \<Rightarrow> py_error + game" where
  "handle_input F g key =
     (if key = KEY_UP \<or> key = 119 \<or> key = 107 then move_and_sweep F g 0 (- 1)
      else if key = KEY_DOWN \<or> key = 115 \<or> key = 106 then move_and_sweep F g 0 1
      else if key = KEY_LEFT \<or> key = 97 \<or> key = 104 then move_and_sweep F g (- 1) 0
      else if key = KEY_RIGHT \<or> key = 100 \<or> key = 108 then move_and_sweep F g 1 0
      else if key = 121 then move_and_sweep F g (- 1) (- 1)
      else if key = 117 then move_and_sweep F g 1 (- 1)
      else if key = 98 then move_and_sweep F g (- 1) 1
      else if key = 110 then move_and_sweep F g 1 1
      else if key = 62 \<or> key = 10 \<or> key = KEY_ENTER then try_descend F g
      else if key = 46 \<or> key = 53 then move_and_sweep F g 0 0
      else if key = 105 then Inr (g\<lparr>state := ''inventory''\<rparr>)
      else if key = 113 then Inr (g\<lparr>running := False\<rparr>)
      else Inr g)"

subsection \<open>Inventory\<close>

text \<open>
  The damage scroll iterates over a copy of the monster list and removes the killed from
  the list itself: \<open>kept\<close> are the monsters already handled that stay, in order.
\<close>

fun scroll_damage ::
  "bool list list \<Rightarrow> monster list \<Rightarrow> monster list \<Rightarrow> player \<Rightarrow> rng \<Rightarrow> int \<Rightarrow>
     py_error + (monster list \<times> player \<times> rng \<times> int)" where
  "scroll_damage vis [] kept p r tot = Inr (kept, p, r, tot)"
| "scroll_damage vis (m # ms) kept p r tot =
     bindE (py_get2 vis (y m) (x m)) (\<lambda>v.
     if v then
       bindE (randint 10 25 r) (\<lambda>(dmg, r1).
       let m1 = m\<lparr>monster.hp := monster.hp m - dmg\<rparr> in
       if monster.hp m1 \<le> 0 then
         scroll_damage vis ms kept (fst (gain_xp (p\<lparr>kills := kills p + 1\<rparr>) (monster.xp m1)))
           r1 (tot + 1)
       else scroll_damage vis ms (kept @ [m1]) p r1 (tot + 1))
     else scroll_damage vis ms (kept @ [m]) p r tot)"

definition use_item :: "game \<Rightarrow> int \<Rightarrow> py_error + game" where
  "use_item g idx =
     (let p = player g in
      bindE (py_get (inventory p) idx) (\<lambda>it.
      bindE
        (if kind it = ''potion'' then
           (case value it of
              EffV _ _ \<Rightarrow> Inl TypeError
            | IntV heal \<Rightarrow>
                let p1 = p\<lparr>player.hp := min (player.max_hp p) (player.hp p + heal)\<rparr> in
                Inr (msg (g\<lparr>player := p1\<rparr>)
                       (''You drink the potion. (+'' @ str_int heal @ '' HP, now ''
                        @ str_int (player.hp p1) @ ''/'' @ str_int (player.max_hp p1) @ '')'')))
         else if kind it = ''scroll'' then
           (case value it of
              IntV _ \<Rightarrow> Inl TypeError
            | EffV sname effect \<Rightarrow>
                if effect = ''damage'' then
                  (case dungeon g of None \<Rightarrow> Inl AttributeError
                   | Some d \<Rightarrow>
                     bindE (scroll_damage (visible d) (monsters d) [] p (rng g) 0)
                       (\<lambda>(ms, p1, r1, tot).
                         Inr (msg (g\<lparr>dungeon := Some (d\<lparr>monsters := ms\<rparr>), player := p1,
                                     rng := r1\<rparr>)
                                (''The scroll of '' @ sname @ '' blasts '' @ str_int tot
                                 @ '' creatures!''))))
                else if effect = ''heal'' then
                  Inr (msg (g\<lparr>player := p\<lparr>player.hp := player.max_hp p\<rparr>\<rparr>)
                         ''The scroll fully restores your health!'')
                else if effect = ''buff_atk'' then
                  let p1 = p\<lparr>base_atk := base_atk p + 2\<rparr> in
                  Inr (msg (g\<lparr>player := p1\<rparr>)
                         (''You feel stronger! (ATK now '' @ str_int (p_atk p1) @ '')''))
                else if effect = ''buff_def'' then
                  let p1 = p\<lparr>defense := defense p + 2\<rparr> in
                  Inr (msg (g\<lparr>player := p1\<rparr>)
                         (''A magical shield surrounds you! (DEF now '' @ str_int (defense p1)
                          @ '')''))
                else if effect = ''reveal'' then
                  (case dungeon g of None \<Rightarrow> Inl AttributeError
                   | Some d \<Rightarrow>
                     bindE (reveal_all d) (\<lambda>d1.
                       Inr (msg (g\<lparr>dungeon := Some d1\<rparr>) ''The dungeon layout is revealed!'')))
                else Inr g)
         else Inr g)
        (\<lambda>g1.
          bindE (py_index (inventory (player g1)) idx) (\<lambda>n.
            Inr (g1\<lparr>player := (player g1)\<lparr>inventory :=
                      remove_nth n (inventory (player g1))\<rparr>\<rparr>)))))"

definition inventory_screen :: "game \<Rightarrow> int \<Rightarrow> py_error + game" where
  "inventory_screen g key =
     (if key = 27 \<or> key = 105 then Inr (g\<lparr>state := ''play''\<rparr>)
      else if 97 \<le> key \<and> key \<le> 122 then
        let idx = key - 97 in
        if idx < int (length (inventory (player g))) then
          bindE (use_item g idx) (\<lambda>g1. Inr (g1\<lparr>state := ''play''\<rparr>))
        else Inr g
      else Inr g)"

subsection \<open>Shop\<close>

definition shop_screen :: "game \<Rightarrow> int \<Rightarrow> py_error + game" where
  "shop_screen g key =
     (let p = player g in
      if key = 27 then Inr (g\<lparr>state := ''play''\<rparr>)
      else if 97 \<le> key \<and> key \<le> 122 then
        let idx = key - 97 in
        if idx < int (length (stock_list g)) then
          bindE (py_get (stock_list g) idx) (\<lambda>entry.
          let pr = price entry in
          if gold p \<ge> pr then
            let p1 = p\<lparr>gold := gold p - pr\<rparr> in
            bindE
              (if stock_entry.kind entry = ''weapon'' then
                 (case stock_entry.value entry of
                    EffV _ _ \<Rightarrow> Inl TypeError
                  | IntV v \<Rightarrow>
                      if v > atk_bonus p1 then
                        Inr (msg (g\<lparr>player := p1\<lparr>weapon := stock_entry.name entry,
                                                    atk_bonus := v\<rparr>\<rparr>)
                               (''Bought and equipped '' @ stock_entry.name entry @ ''!''))
                      else
                        Inr (msg (g\<lparr>player := p1\<rparr>)
                               (''Bought '' @ stock_entry.name entry @ '' but your ''
                                @ weapon p1 @ '' is better.'')))
               else
                 let it = item_entity 0 0 (stock_entry.ch entry) (stock_entry.name entry)
                            (stock_entry.color entry) (stock_entry.kind entry)
                            (stock_entry.value entry) in
                 Inr (msg (g\<lparr>player := p1\<lparr>inventory := inventory p1 @ [it]\<rparr>\<rparr>)
                        (''Bought '' @ stock_entry.name entry @ ''.'')))
              (\<lambda>g1.
                bindE (py_index (stock_list g1) idx) (\<lambda>n.
                  Inr (set_stock_list g1 (remove_nth n (stock_list g1)))))
          else Inr (msg g ''You can't afford that!''))
        else Inr g
      else Inr g)"

subsection \<open>The other screens and the main loop\<close>

definition title_screen :: "'f float_ops \<Rightarrow> game \<Rightarrow> int \<Rightarrow> py_error + game" where
  "title_screen F g key =
     new_level F (g\<lparr>state := ''play'', player := Player 0 0, messages := []\<rparr>) 1"

definition death_screen :: "game \<Rightarrow> int \<Rightarrow> py_error + game" where
  "death_screen g key =
     (if key = 113 then Inr (g\<lparr>running := False\<rparr>)
      else if key = 32 then Inr (g\<lparr>state := ''title''\<rparr>)
      else Inr g)"

definition win_screen :: "game \<Rightarrow> int \<Rightarrow> py_error + game" where
  "win_screen g key =
     (if key = 113 then Inr (g\<lparr>running := False\<rparr>)
      else if key = 32 then Inr (g\<lparr>state := ''title''\<rparr>)
      else Inr g)"

text \<open>
  One iteration of the \<open>while self.running\<close> loop of \<open>run\<close>: every screen reads exactly
  one key.
\<close>

definition run_step :: "'f float_ops \<Rightarrow> game \<Rightarrow> int \<Rightarrow> py_error + game" where
  "run_step F g key =
     (if state g = ''title'' then title_screen F g key
      else if state g = ''play'' then handle_input F g key
      else if state g = ''dead'' then death_screen g key
      else if state g = ''inventory'' then inventory_screen g key
      else if state g = ''shop'' then shop_screen g key
      else if state g = ''win'' then win_screen g key
      else Inr g)"

section \<open>A small level\<close>

text \<open>
  A 5 by 4 level with one room, fully lit: a rat east and a snake south of the player, a
  rusty dagger on the floor and a merchant selling one potion for 20 gold. The player
  stands in the north-west corner of the room with a short sword (bonus 4) and 15 gold.
  The generator \<open>zero_rng\<close> makes every draw the least value of its range.
\<close>

definition zero_rng :: rng where
  "zero_rng = (\<lambda>_. 0)"

definition demo_level :: dungeon_level where
  "demo_level =
     \<lparr> w = 5, h = 4, depth = 1,
       tiles = [[WALL, WALL, WALL, WALL, WALL],
                [WALL, FLOOR, FLOOR, FLOOR, WALL],
                [WALL, FLOOR, FLOOR, FLOOR, WALL],
                [WALL, WALL, WALL, WALL, WALL]],
       revealed = replicate 4 (replicate 5 True),
       visible = replicate 4 (replicate 5 True),
       rooms = [(1, 1, 3, 2)],
       monsters =
         [\<lparr> x = 2, y = 1, ch = ''r'', name = ''rat'', color = C_MONSTER,
             monster.hp = 6, monster.max_hp = 6, atk = 2, monster.xp = 5 \<rparr>,
          \<lparr> x = 1, y = 2, ch = ''s'', name = ''snake'', color = C_MONSTER,
             monster.hp = 8, monster.max_hp = 8, atk = 3, monster.xp = 8 \<rparr>],
       items = [item_entity 2 2 WEAPON ''rusty dagger'' C_ITEM ''weapon'' (IntV 2)],
       stairs_pos = None,
       merchant =
         Some \<lparr> x = 3, y = 2, ch = MERCHANT, name = ''merchant'', color = C_MERCHANT,
                stock = [\<lparr> stock_entry.ch = POTION, stock_entry.name = ''potion (+12 HP)'',
                           stock_entry.color = C_HEAL, stock_entry.kind = ''potion'',
                           stock_entry.value = IntV 12, price = 20 \<rparr>] \<rparr> \<rparr>"

definition demo_game :: game where
  "demo_game =
     \<lparr> running = True, messages = [],
       player = (Player 1 1)\<lparr>weapon := ''short sword'', atk_bonus := 4, gold := 15\<rparr>,
       dungeon = Some demo_level, state = ''play'', shop_stock = Own [], rng = zero_rng \<rparr>"

text \<open>The same game in the shop of the merchant, with a given amount of gold.\<close>

definition shop_game :: "int \<Rightarrow> game" where
  "shop_game gld =
     demo_game\<lparr>shop_stock := Merchant_stock, state := ''shop'',
       player := (player demo_game)\<lparr>gold := gld\<rparr>\<rparr>"

text \<open>The same game with a player who has 2 hp left.\<close>

definition weak_game :: game where
  "weak_game = demo_game\<lparr>player := (player demo_game)\<lparr>player.hp := 2\<rparr>\<rparr>"

text \<open>
  Float operations over the integers, to run the functions that take them: every ray
  points east.
\<close>

definition int_ops :: "int float_ops" where
  "int_ops =
     \<lparr> to_float = (\<lambda>n. n), f_add = (\<lambda>a b. a + b), int_round = (\<lambda>a. a),
       angle_of = (\<lambda>n. int n), f_cos = (\<lambda>a. 1), f_sin = (\<lambda>a. 0),
       hp_scale_of = (\<lambda>dep. 1), atk_scale_of = (\<lambda>dep. 1), int_mul = (\<lambda>n s. n * s) \<rparr>"

text \<open>The same game with a player who has 1 hp left.\<close>

definition frail_game :: game where
  "frail_game = demo_game\<lparr>player := (player demo_game)\<lparr>player.hp := 1\<rparr>\<rparr>"

text \<open>
  A dark corridor of six tiles with a wall in the middle, seen from its west end: the
  tiles 3, 4 and 5 lie behind the wall at 2.
\<close>

definition corridor_level :: dungeon_level where
  "corridor_level =
     \<lparr> w = 6, h = 1, depth = 1,
       tiles = [[FLOOR, FLOOR, WALL, FLOOR, FLOOR, FLOOR]],
       revealed = [replicate 6 False],
       visible = [replicate 6 False],
       rooms = [], monsters = [], items = [], stairs_pos = None, merchant = None \<rparr>"

section \<open>Specifications of computations that may raise\<close>

text \<open>
  \<open>post m Q\<close>: if \<open>m\<close> returns, its result satisfies \<open>Q\<close>. \<open>succeeds m Q\<close>: \<open>m\<close> returns,
  and its result satisfies \<open>Q\<close>. The bound \<open>hp \<le> max_hp\<close> of a player is \<open>hp_ok\<close>.
\<close>

definition post :: "py_error + 'a \<Rightarrow> ('a \<Rightarrow> bool) \<Rightarrow> bool" where
  "post m Q = (case m of Inl e \<Rightarrow> True | Inr v \<Rightarrow> Q v)"

definition succeeds :: "py_error + 'a \<Rightarrow> ('a \<Rightarrow> bool) \<Rightarrow> bool" where
  "succeeds m Q = (case m of Inl e \<Rightarrow> False | Inr v \<Rightarrow> Q v)"

definition hp_ok :: "player \<Rightarrow> bool" where
  "hp_ok p \<longleftrightarrow> player.hp p \<le> player.max_hp p"

text \<open>
  The states of a run: the constructor's state, and every state that an iteration of the
  main loop reaches from one of them, for any key, while \<open>running\<close> holds.
\<close>

inductive reachable :: "'f float_ops \<Rightarrow> game \<Rightarrow> bool" for F :: "'f float_ops" where
  init: "reachable F (Game r)"
| step: "reachable F g \<Longrightarrow> running g \<Longrightarrow> run_step F g key = Inr g' \<Longrightarrow> reachable F g'"

text \<open>
  The grids of a level have \<open>h\<close> rows of \<open>w\<close> cells, as the constructor builds them.
  \<open>grid_le a b\<close>: the boolean grid \<open>b\<close> has the shape of \<open>a\<close> and is true wherever \<open>a\<close> is.
\<close>

definition grid_ok :: "'a list list \<Rightarrow> int \<Rightarrow> int \<Rightarrow> bool" where
  "grid_ok g hh ww \<longleftrightarrow> length g = nat hh \<and> (\<forall>row \<in> set g. length row = nat ww)"

definition level_ok :: "dungeon_level \<Rightarrow> bool" where
  "level_ok d \<longleftrightarrow>
     grid_ok (tiles d) (h d) (w d) \<and> grid_ok (visible d) (h d) (w d)
     \<and> grid_ok (revealed d) (h d) (w d)"

definition grid_le :: "bool list list \<Rightarrow> bool list list \<Rightarrow> bool" where
  "grid_le a b \<longleftrightarrow>
     length b = length a
     \<and> (\<forall>j < length a. length (b ! j) = length (a ! j)
            \<and> (\<forall>i < length (a ! j). a ! j ! i \<longrightarrow> b ! j ! i))"

text \<open>
  The tile that a ray looks at in its step \<open>k\<close> (counted from 0): the start position
  after \<open>k\<close> additions of the direction, rounded.
\<close>

fun ray_pos :: "'f float_ops \<Rightarrow> 'f \<Rightarrow> nat \<Rightarrow> 'f \<Rightarrow> 'f" where
  "ray_pos F dx 0 fx = fx"
| "ray_pos F dx (Suc k) fx = ray_pos F dx k (f_add F fx dx)"

definition ray_tile :: "'f float_ops \<Rightarrow> 'f \<Rightarrow> 'f \<Rightarrow> 'f \<Rightarrow> 'f \<Rightarrow> nat \<Rightarrow> int \<times> int" where
  "ray_tile F dx dy fx fy k = (int_round F (ray_pos F dy k fy), int_round F (ray_pos F dx k fx))"

text \<open>
  A tile \<open>(iy, ix)\<close> inside the bounds that \<open>compute_fov\<close> tests, the kind of tile there,
  and the level after the ray has marked it visible and revealed.
\<close>

definition in_grid :: "dungeon_level \<Rightarrow> int \<times> int \<Rightarrow> bool" where
  "in_grid d c \<longleftrightarrow> 0 \<le> snd c \<and> snd c < w d \<and> 0 \<le> fst c \<and> fst c < h d"

definition tile_at :: "dungeon_level \<Rightarrow> int \<times> int \<Rightarrow> string" where
  "tile_at d c = tiles d ! nat (fst c) ! nat (snd c)"

definition mark_tile :: "dungeon_level \<Rightarrow> int \<times> int \<Rightarrow> dungeon_level" where
  "mark_tile d c =
     d\<lparr>visible := (visible d)[nat (fst c) := (visible d ! nat (fst c))[nat (snd c) := True]],
       revealed := (revealed d)[nat (fst c) := (revealed d ! nat (fst c))[nat (snd c) := True]]\<rparr>"

text \<open>Sequences of the two operations that write the visibility grids.\<close>

datatype vis_op = Compute_fov int int int | Reveal_all

fun run_vis_ops :: "'f float_ops \<Rightarrow> vis_op list \<Rightarrow> dungeon_level \<Rightarrow> py_error + dungeon_level" where
  "run_vis_ops F [] d = Inr d"
| "run_vis_ops F (Compute_fov px py radius # ops) d =
     bindE (compute_fov F d px py radius) (run_vis_ops F ops)"
| "run_vis_ops F (Reveal_all # ops) d = bindE (reveal_all d) (run_vis_ops F ops)"

text \<open>
  What level generation maintains: the grids have their shape, the depth is not negative,
  and every accepted room has the size and the position that the placement loop draws
  (inside the grid, with a border of one tile at the low and two at the high end).
  \<open>same_plan\<close>: two levels agree on size, depth and rooms.
\<close>

definition room_ok :: "int \<Rightarrow> int \<Rightarrow> room \<Rightarrow> bool" where
  "room_ok ww hh room \<longleftrightarrow>
     (case room of (rx, ry, rw, rh) \<Rightarrow>
        1 \<le> rx \<and> 5 \<le> rw \<and> rw \<le> 12 \<and> rx + rw \<le> ww - 2
        \<and> 1 \<le> ry \<and> 4 \<le> rh \<and> rh \<le> 8 \<and> ry + rh \<le> hh - 2)"

definition gen_inv :: "dungeon_level \<Rightarrow> bool" where
  "gen_inv d \<longleftrightarrow>
     level_ok d \<and> 0 \<le> depth d \<and> (\<forall>room \<in> set (rooms d). room_ok (w d) (h d) room)"

definition same_plan :: "dungeon_level \<Rightarrow> dungeon_level \<Rightarrow> bool" where
  "same_plan d d' \<longleftrightarrow>
     w d' = w d \<and> h d' = h d \<and> depth d' = depth d \<and> rooms d' = rooms d"

text \<open>
  What \<open>compute_fov\<close> lights. \<open>ray_reaches\<close>: the ray looks at a tile of the grid in its
  step \<open>k\<close>, and every tile it looked at before is inside the grid and not a wall, so
  that neither \<open>break\<close> has ended it. \<open>lit\<close>: one of the 360 rays from the viewer reaches
  the tile within \<open>radius\<close> steps.
\<close>

definition ray_reaches ::
  "'f float_ops \<Rightarrow> dungeon_level \<Rightarrow> 'f \<Rightarrow> 'f \<Rightarrow> 'f \<Rightarrow> 'f \<Rightarrow> nat \<Rightarrow> bool" where
  "ray_reaches F d dx dy fx fy k \<longleftrightarrow>
     in_grid d (ray_tile F dx dy fx fy k)
     \<and> (\<forall>j<k. in_grid d (ray_tile F dx dy fx fy j) \<and> tile_at d (ray_tile F dx dy fx fy j) \<noteq> WALL)"

definition lit :: "'f float_ops \<Rightarrow> dungeon_level \<Rightarrow> int \<Rightarrow> int \<Rightarrow> int \<Rightarrow> int \<times> int \<Rightarrow> bool" where
  "lit F d px py radius c \<longleftrightarrow>
     (\<exists>a<360. \<exists>k<nat radius.
        ray_reaches F d (f_cos F (angle_of F a)) (f_sin F (angle_of F a))
          (to_float F px) (to_float F py) k
        \<and> ray_tile F (f_cos F (angle_of F a)) (f_sin F (angle_of F a))
            (to_float F px) (to_float F py) k = c)"

section \<open>Properties\<close>

subsection \<open>Experience and level-ups\<close>

lemma level_up_fields:
  "level_up p = p\<lparr>player.xp := player.xp p - level p * 20, level := level p + 1,
     player.max_hp := player.max_hp p + 8, player.hp := player.max_hp p + 8,
     base_atk := base_atk p + 1\<rparr>"
  by (simp add: level_up_def Let_def xp_to_next_def)

lemma gain_xp_loop_stop:
  "player.xp p < level p * 20 \<Longrightarrow> gain_xp_loop p b = (p, b)"
  by (subst gain_xp_loop.simps) (simp add: xp_to_next_def)

lemma gain_xp_loop_step:
  "level p * 20 \<le> player.xp p \<Longrightarrow> gain_xp_loop p b = gain_xp_loop (level_up p) True"
  by (subst gain_xp_loop.simps) (simp add: xp_to_next_def)

text \<open>
  C1 (as the code has it). For a player at level \<open>L \<ge> 1\<close> with \<open>0 \<le> xp < 20 L\<close>, gaining
  exactly \<open>xp_to_next()\<close> XP runs the loop body exactly once (level +1, max_hp +8, hp set
  to the new max_hp, base_atk +1) and leaves the old xp, which is 0 when the player had
  none. With xp 0, gaining \<open>2 * xp_to_next() + 5\<close> also gives exactly one level-up, with
  \<open>xp_to_next() + 5\<close> left over (25 at level 1), because the second threshold is computed
  from the new level; two level-ups with 5 left over take
  \<open>20 L + 20 (L + 1) + 5\<close> XP (65 at level 1).
\<close>

theorem gain_xp_level_ups:
  assumes "1 \<le> level p" and "0 \<le> player.xp p" and "player.xp p < xp_to_next p"
  shows "gain_xp p (xp_to_next p) =
           (p\<lparr>level := level p + 1, player.max_hp := player.max_hp p + 8,
              player.hp := player.max_hp p + 8, base_atk := base_atk p + 1\<rparr>, True)
       \<and> (player.xp p = 0 \<longrightarrow>
            gain_xp p (2 * xp_to_next p + 5) =
              (p\<lparr>player.xp := xp_to_next p + 5, level := level p + 1,
                 player.max_hp := player.max_hp p + 8, player.hp := player.max_hp p + 8,
                 base_atk := base_atk p + 1\<rparr>, True)
          \<and> gain_xp p (xp_to_next p + 20 * (level p + 1) + 5) =
              (p\<lparr>player.xp := 5, level := level p + 2,
                 player.max_hp := player.max_hp p + 16, player.hp := player.max_hp p + 16,
                 base_atk := base_atk p + 2\<rparr>, True))"
proof (intro conjI impI)
  let ?q = "p\<lparr>player.xp := player.xp p + xp_to_next p\<rparr>"
  have "gain_xp p (xp_to_next p) = gain_xp_loop (level_up ?q) True"
    using assms by (simp add: gain_xp_def gain_xp_loop_step xp_to_next_def)
  also have "\<dots> = (level_up ?q, True)"
    using assms by (intro gain_xp_loop_stop) (simp add: level_up_fields xp_to_next_def)
  finally show "gain_xp p (xp_to_next p) =
           (p\<lparr>level := level p + 1, player.max_hp := player.max_hp p + 8,
              player.hp := player.max_hp p + 8, base_atk := base_atk p + 1\<rparr>, True)"
    by (simp add: level_up_fields xp_to_next_def)
next
  assume z: "player.xp p = 0"
  let ?q = "p\<lparr>player.xp := player.xp p + (2 * xp_to_next p + 5)\<rparr>"
  have "gain_xp p (2 * xp_to_next p + 5) = gain_xp_loop (level_up ?q) True"
    using assms z by (simp add: gain_xp_def gain_xp_loop_step xp_to_next_def)
  also have "\<dots> = (level_up ?q, True)"
    using assms z by (intro gain_xp_loop_stop) (simp add: level_up_fields xp_to_next_def)
  finally show "gain_xp p (2 * xp_to_next p + 5) =
              (p\<lparr>player.xp := xp_to_next p + 5, level := level p + 1,
                 player.max_hp := player.max_hp p + 8, player.hp := player.max_hp p + 8,
                 base_atk := base_atk p + 1\<rparr>, True)"
    using z by (simp add: level_up_fields xp_to_next_def)
next
  assume z: "player.xp p = 0"
  let ?q = "p\<lparr>player.xp := player.xp p + (xp_to_next p + 20 * (level p + 1) + 5)\<rparr>"
  have "gain_xp p (xp_to_next p + 20 * (level p + 1) + 5) = gain_xp_loop (level_up ?q) True"
    using assms z by (simp add: gain_xp_def gain_xp_loop_step xp_to_next_def)
  also have "\<dots> = gain_xp_loop (level_up (level_up ?q)) True"
    using assms z by (intro gain_xp_loop_step) (simp add: level_up_fields xp_to_next_def)
  also have "\<dots> = (level_up (level_up ?q), True)"
    using assms z by (intro gain_xp_loop_stop) (simp add: level_up_fields xp_to_next_def)
  finally show "gain_xp p (xp_to_next p + 20 * (level p + 1) + 5) =
              (p\<lparr>player.xp := 5, level := level p + 2,
                 player.max_hp := player.max_hp p + 16, player.hp := player.max_hp p + 16,
                 base_atk := base_atk p + 2\<rparr>, True)"
    using z by (simp add: level_up_fields xp_to_next_def)
qed

theorem gain_xp_level_ups_witness:
  "gain_xp (Player 0 0) 20 =
     ((Player 0 0)\<lparr>level := 2, player.max_hp := 38, player.hp := 38, base_atk := 4\<rparr>, True)
   \<and> gain_xp (Player 0 0) 45 =
     ((Player 0 0)\<lparr>player.xp := 25, level := 2, player.max_hp := 38, player.hp := 38,
        base_atk := 4\<rparr>, True)
   \<and> gain_xp (Player 0 0) 65 =
     ((Player 0 0)\<lparr>player.xp := 5, level := 3, player.max_hp := 46, player.hp := 46,
        base_atk := 5\<rparr>, True)"
  using gain_xp_level_ups [of "Player 0 0"]
  by (simp add: Player_def xp_to_next_def PLAYER_def C_PLAYER_def)

text \<open>
  C1 as stated fails: a fresh player (level 1, xp 0) who gains
  \<open>2 * xp_to_next() + 5 = 45\<close> XP levels up once and keeps 25 xp; it is not at level 3
  with 5 xp.
\<close>

theorem gain_xp_two_level_ups_counterexample:
  "level (fst (gain_xp (Player 0 0) (2 * xp_to_next (Player 0 0) + 5))) = 2
   \<and> player.xp (fst (gain_xp (Player 0 0) (2 * xp_to_next (Player 0 0) + 5))) = 25
   \<and> \<not> (level (fst (gain_xp (Player 0 0) (2 * xp_to_next (Player 0 0) + 5))) = 1 + 2
        \<and> player.xp (fst (gain_xp (Player 0 0) (2 * xp_to_next (Player 0 0) + 5))) = 5)"
proof -
  let ?q = "(Player 0 0)\<lparr>player.xp := 45\<rparr>"
  have "gain_xp (Player 0 0) (2 * xp_to_next (Player 0 0) + 5) = gain_xp_loop (level_up ?q) True"
    by (simp add: gain_xp_def gain_xp_loop_step xp_to_next_def Player_def)
  also have "\<dots> = (level_up ?q, True)"
    by (intro gain_xp_loop_stop) (simp add: level_up_fields Player_def)
  finally show ?thesis
    by (simp add: level_up_fields Player_def)
qed

subsection \<open>Basic facts about the error monad, lists, draws and messages\<close>

lemma bindE_Inr [simp]: "bindE (Inr v) f = f v"
  by (simp add: bindE_def)

lemma bindE_Inl [simp]: "bindE (Inl e) f = Inl e"
  by (simp add: bindE_def)

lemma bindE_eq_Inr: "bindE m f = Inr z \<longleftrightarrow> (\<exists>v. m = Inr v \<and> f v = Inr z)"
  by (cases m) auto

lemma py_index_in [simp]: "0 \<le> i \<Longrightarrow> i < int (length xs) \<Longrightarrow> py_index xs i = Inr (nat i)"
  by (simp add: py_index_def Let_def)

lemma py_get_in [simp]: "0 \<le> i \<Longrightarrow> i < int (length xs) \<Longrightarrow> py_get xs i = Inr (xs ! nat i)"
  by (simp add: py_get_def)

lemma randint_range:
  assumes "a \<le> b"
  shows "\<exists>v. a \<le> v \<and> v \<le> b \<and> randint a b r = Inr (v, next_rng r)"
proof -
  have "0 \<le> r 0 mod (b - a + 1)"
    using assms by simp
  moreover have "r 0 mod (b - a + 1) \<le> b - a"
    using pos_mod_bound [of "b - a + 1" "r 0"] assms by linarith
  ultimately show ?thesis
    using assms unfolding randint_def by simp
qed

lemma msg_player [simp]: "player (msg g t) = player g"
  by (simp add: msg_def Let_def)

lemma msg_dungeon [simp]: "dungeon (msg g t) = dungeon g"
  by (simp add: msg_def Let_def)

lemma msg_state [simp]: "state (msg g t) = state g"
  by (simp add: msg_def Let_def)

lemma msg_rng [simp]: "rng (msg g t) = rng g"
  by (simp add: msg_def Let_def)

lemma msg_shop_stock [simp]: "shop_stock (msg g t) = shop_stock g"
  by (simp add: msg_def Let_def)

lemma msg_running [simp]: "running (msg g t) = running g"
  by (simp add: msg_def Let_def)

lemma msg_last: "last (messages (msg g t)) = t"
  by (simp add: msg_def Let_def remove_nth_def)

subsection \<open>Combat damage\<close>

text \<open>
  C5. The draw \<open>r\<close> of \<open>random.randint(0, 2)\<close> lies in \<open>[0, 2]\<close>. A player attack on the
  monster at position \<open>i\<close> deals \<open>max(1, player.atk - r) \<ge> 1\<close>: the monster loses that much
  hp, and leaves the list when its hp reaches 0 or less. A visible monster at Manhattan
  distance at most 1 deals \<open>max(1, monster.atk - player.defense - r) \<ge> 1\<close> to the player's
  hp, which is exactly 1 whenever \<open>player.defense \<ge> monster.atk + 2\<close>.
\<close>

theorem combat_damage:
  assumes "dungeon g = Some d" and "i < length (monsters d)"
  shows "\<exists>r. randint 0 2 (rng g) = Inr (r, next_rng (rng g)) \<and> 0 \<le> r \<and> r \<le> 2
     \<and> (let p = player g; m = monsters d ! i; dmg = max 1 (p_atk p - r) in
          1 \<le> dmg \<and>
          (\<exists>g'. attack_monster g i = Inr g' \<and>
             map_option monsters (dungeon g') =
               Some (if monster.hp m - dmg \<le> 0 then remove_nth i (monsters d)
                     else (monsters d)[i := m\<lparr>monster.hp := monster.hp m - dmg\<rparr>])))
     \<and> (let p = player g; m = monsters d ! i; dmg = max 1 (atk m - defense p - r) in
          1 \<le> dmg \<and>
          (py_get2 (visible d) (y m) (x m) = Inr True \<longrightarrow> \<bar>x m - x p\<bar> + \<bar>y m - y p\<bar> \<le> 1 \<longrightarrow>
            (\<exists>g' b. monster_turn g i = Inr (g', b)
               \<and> player.hp (player g') = player.hp p - dmg
               \<and> (defense p \<ge> atk m + 2 \<longrightarrow> player.hp (player g') = player.hp p - 1))))"
proof -
  obtain r where r: "randint 0 2 (rng g) = Inr (r, next_rng (rng g))" "0 \<le> r" "r \<le> 2"
    using randint_range [of 0 2 "rng g"] by auto
  have a: "\<exists>g'. attack_monster g i = Inr g' \<and>
             map_option monsters (dungeon g') =
               Some (if monster.hp (monsters d ! i) - max 1 (p_atk (player g) - r) \<le> 0
                     then remove_nth i (monsters d)
                     else (monsters d)[i := (monsters d ! i)\<lparr>monster.hp :=
                            monster.hp (monsters d ! i) - max 1 (p_atk (player g) - r)\<rparr>])"
    using assms r by (simp add: attack_monster_def Let_def)
  have b: "py_get2 (visible d) (y (monsters d ! i)) (x (monsters d ! i)) = Inr True \<Longrightarrow>
           \<bar>x (monsters d ! i) - x (player g)\<bar> + \<bar>y (monsters d ! i) - y (player g)\<bar> \<le> 1 \<Longrightarrow>
           \<exists>g' b. monster_turn g i = Inr (g', b)
               \<and> player.hp (player g') =
                   player.hp (player g) - max 1 (atk (monsters d ! i) - defense (player g) - r)"
    using assms r by (auto simp: monster_turn_def Let_def)
  have c: "defense (player g) \<ge> atk (monsters d ! i) + 2 \<Longrightarrow>
           max 1 (atk (monsters d ! i) - defense (player g) - r) = 1"
    using r by simp
  show ?thesis
    apply (rule exI [of _ r])
    unfolding Let_def
    apply (intro conjI impI)
    subgoal by (rule r)
    subgoal by (rule r)
    subgoal by (rule r)
    subgoal by simp
    subgoal by (rule a)
    subgoal by simp
    subgoal premises prems using b [OF prems] c by auto
    done
qed

theorem combat_damage_witness:
  "dungeon demo_game = Some demo_level \<and> 0 < length (monsters demo_level)
   \<and> \<not> isl (attack_monster demo_game 0)
   \<and> map_option (map name \<circ> monsters) (dungeon (projr (attack_monster demo_game 0))) = Some [''snake'']
   \<and> py_get2 (visible demo_level) (y (monsters demo_level ! 0)) (x (monsters demo_level ! 0)) = Inr True
   \<and> \<bar>x (monsters demo_level ! 0) - x (player demo_game)\<bar> + \<bar>y (monsters demo_level ! 0) - y (player demo_game)\<bar> \<le> 1
   \<and> \<not> isl (monster_turn demo_game 0)
   \<and> player.hp (player (fst (projr (monster_turn demo_game 0)))) = 28"
proof -
  have h1: "dungeon demo_game = Some demo_level"
    by (simp add: demo_game_def)
  have h2: "0 < length (monsters demo_level)"
    by (simp add: demo_level_def)
  have v: "py_get2 (visible demo_level) (y (monsters demo_level ! 0)) (x (monsters demo_level ! 0)) = Inr True"
    by (simp add: demo_level_def py_get2_def)
  have dist: "\<bar>x (monsters demo_level ! 0) - x (player demo_game)\<bar> + \<bar>y (monsters demo_level ! 0) - y (player demo_game)\<bar> \<le> 1"
    by (simp add: demo_level_def demo_game_def Player_def)
  from combat_damage [OF h1 h2] obtain r where
    r: "randint 0 2 (rng demo_game) = Inr (r, next_rng (rng demo_game))" and
    a: "\<exists>g'. attack_monster demo_game 0 = Inr g' \<and>
             map_option monsters (dungeon g') =
               Some (if monster.hp (monsters demo_level ! 0) - max 1 (p_atk (player demo_game) - r) \<le> 0 then remove_nth 0 (monsters demo_level)
                     else (monsters demo_level)[0 := (monsters demo_level ! 0)\<lparr>monster.hp := monster.hp (monsters demo_level ! 0) - max 1 (p_atk (player demo_game) - r)\<rparr>])" and
    b: "py_get2 (visible demo_level) (y (monsters demo_level ! 0)) (x (monsters demo_level ! 0)) = Inr True \<longrightarrow>
           \<bar>x (monsters demo_level ! 0) - x (player demo_game)\<bar> + \<bar>y (monsters demo_level ! 0) - y (player demo_game)\<bar> \<le> 1 \<longrightarrow>
            (\<exists>g' b. monster_turn demo_game 0 = Inr (g', b)
               \<and> player.hp (player g') = player.hp (player demo_game) - max 1 (atk (monsters demo_level ! 0) - defense (player demo_game) - r)
               \<and> (defense (player demo_game) \<ge> atk (monsters demo_level ! 0) + 2 \<longrightarrow> player.hp (player g') = player.hp (player demo_game) - 1))"
    unfolding Let_def by blast
  have r0: "r = 0"
    using r by (simp add: randint_def demo_game_def zero_rng_def)
  from a obtain g' where g': "attack_monster demo_game 0 = Inr g'"
     "map_option monsters (dungeon g') = Some (tl (monsters demo_level))"
    by (auto simp: r0 demo_level_def demo_game_def Player_def p_atk_def remove_nth_def)
  from b v dist obtain g'' b' where g'': "monster_turn demo_game 0 = Inr (g'', b')"
     "player.hp (player g'') = 28"
    by (auto simp: r0 demo_level_def demo_game_def Player_def)
  show ?thesis
    using h1 h2 v dist g' g'' by (auto simp: demo_level_def)
qed

subsection \<open>Picking up items\<close>

text \<open>
  C3 (as the code has it). Picking up the item at position \<open>j\<close> always removes it from
  the level's item list. A weapon whose bonus does not exceed the current \<open>atk_bonus\<close>
  only produces the notice that it is weaker: the player (inventory, weapon, bonus) is
  unchanged, so the weapon is discarded, not stored. The inventory receives the item
  exactly when it is a potion or a scroll; a strictly better weapon replaces the equipped
  one and gold is added to the purse, neither being stored.
\<close>

theorem pickup_effects:
  assumes "dungeon g = Some d" and "j < length (items d)"
  shows "(kind (items d ! j) = ''weapon'' \<longrightarrow>
            (\<forall>v. value (items d ! j) = IntV v \<longrightarrow> v \<le> atk_bonus (player g) \<longrightarrow>
               pickup g j =
                 Inr ((msg g (''The '' @ name (items d ! j) @ '' is weaker than your ''
                              @ weapon (player g) @ ''.''))
                      \<lparr>dungeon := Some (d\<lparr>items := remove_nth j (items d)\<rparr>)\<rparr>)))
       \<and> (\<forall>g'. pickup g j = Inr g' \<longrightarrow>
             map_option items (dungeon g') = Some (remove_nth j (items d))
           \<and> inventory (player g') =
               (if kind (items d ! j) = ''potion'' \<or> kind (items d ! j) = ''scroll''
                then inventory (player g) @ [items d ! j] else inventory (player g))
           \<and> (\<forall>v. kind (items d ! j) = ''weapon'' \<longrightarrow> value (items d ! j) = IntV v \<longrightarrow>
                  atk_bonus (player g') = max v (atk_bonus (player g))
                \<and> weapon (player g') =
                    (if v > atk_bonus (player g) then name (items d ! j) else weapon (player g)))
           \<and> (\<forall>v. kind (items d ! j) = ''gold'' \<longrightarrow> value (items d ! j) = IntV v \<longrightarrow>
                  gold (player g') = gold (player g) + v))"
  using assms
  by (auto simp: pickup_def Let_def bindE_eq_Inr split: ival.splits if_splits)

theorem pickup_effects_witness:
  "dungeon demo_game = Some demo_level \<and> 0 < length (items demo_level)
   \<and> kind (items demo_level ! 0) = ''weapon'' \<and> value (items demo_level ! 0) = IntV 2
   \<and> 2 \<le> atk_bonus (player demo_game)
   \<and> pickup demo_game 0 =
        Inr ((msg demo_game ''The rusty dagger is weaker than your short sword.'')
               \<lparr>dungeon := Some (demo_level\<lparr>items := []\<rparr>)\<rparr>)
   \<and> inventory (player (projr (pickup demo_game 0))) = []"
proof -
  have h1: "dungeon demo_game = Some demo_level"
    by (simp add: demo_game_def)
  have h2: "0 < length (items demo_level)"
    by (simp add: demo_level_def)
  have k: "kind (items demo_level ! 0) = ''weapon''" "value (items demo_level ! 0) = IntV 2"
     "2 \<le> atk_bonus (player demo_game)"
    by (simp_all add: demo_level_def demo_game_def item_entity_def)
  from pickup_effects [OF h1 h2] k
  have "pickup demo_game 0 =
                 Inr ((msg demo_game (''The '' @ name (items demo_level ! 0) @ '' is weaker than your ''
                              @ weapon (player demo_game) @ ''.''))
                      \<lparr>dungeon := Some (demo_level\<lparr>items := remove_nth 0 (items demo_level)\<rparr>)\<rparr>)"
    by blast
  then have p: "pickup demo_game 0 =
        Inr ((msg demo_game ''The rusty dagger is weaker than your short sword.'')
               \<lparr>dungeon := Some (demo_level\<lparr>items := []\<rparr>)\<rparr>)"
    by (simp add: demo_level_def demo_game_def item_entity_def remove_nth_def)
  have "inventory (player (projr (pickup demo_game 0))) = []"
    unfolding p by (simp add: demo_game_def Player_def)
  with h1 h2 k p show ?thesis by simp
qed

text \<open>
  C3 as stated fails: the player of the small level (bonus 4) picks up the rusty dagger
  (bonus 2); the dagger leaves the level's item list and the inventory stays empty.
\<close>

theorem weak_weapon_stored_counterexample:
  "\<not> isl (pickup demo_game 0)
   \<and> kind (items demo_level ! 0) = ''weapon''
   \<and> value (items demo_level ! 0) = IntV 2
   \<and> atk_bonus (player demo_game) = 4
   \<and> inventory (player demo_game) = []
   \<and> inventory (player (projr (pickup demo_game 0))) = []
   \<and> map_option items (dungeon (projr (pickup demo_game 0))) = Some []"
  by (simp add: pickup_def demo_game_def demo_level_def item_entity_def Let_def Player_def
        remove_nth_def)

subsection \<open>Shop purchases\<close>

lemma stock_list_msg [simp]: "stock_list (msg g t) = stock_list g"
  by (simp add: stock_list_def split: stock_ref.splits)

lemma stock_list_player_update [simp]: "stock_list (g\<lparr>player := p\<rparr>) = stock_list g"
  by (simp add: stock_list_def split: stock_ref.splits)

lemma set_stock_list_player [simp]: "player (set_stock_list g st) = player g"
  by (simp add: set_stock_list_def split: stock_ref.splits)

lemma set_stock_list_shop_stock:
  "shop_stock (set_stock_list g st) = (case shop_stock g of Own _ \<Rightarrow> Own st | Merchant_stock \<Rightarrow> Merchant_stock)"
  by (simp add: set_stock_list_def split: stock_ref.splits)

lemma stock_list_set_stock_list:
  "shop_stock g = Merchant_stock \<longrightarrow> (\<exists>d mer. dungeon g = Some d \<and> merchant d = Some mer) \<Longrightarrow>
   stock_list (set_stock_list g st) = st"
  by (auto simp: set_stock_list_def stock_list_def split: stock_ref.splits)

text \<open>
  C7. A key \<open>a\<close>..\<open>z\<close> that selects an entry of the stock: when the player's gold is
  below the entry's price, the only effect is the message \<open>You can't afford that!\<close>;
  gold, inventory and equipped weapon (the whole player), the level with the merchant and
  the stock are unchanged. Whenever the player or the stock changes, gold was at least the
  price. With enough gold (a weapon entry carrying its integer bonus, and the merchant
  being present when the stock is the merchant's) the purchase succeeds: gold drops by the
  price and the entry is popped from the stock list, which is the merchant's own list, so
  the entry is gone for every later visit.
\<close>

theorem shop_purchase:
  assumes "97 \<le> key" and "key \<le> 122" and "key - 97 < int (length (stock_list g))"
  shows "let entry = stock_list g ! nat (key - 97) in
     (gold (player g) < price entry \<longrightarrow>
        (\<exists>g'. shop_screen g key = Inr g' \<and> g' = msg g ''You can't afford that!''
           \<and> player g' = player g \<and> dungeon g' = dungeon g \<and> shop_stock g' = shop_stock g
           \<and> stock_list g' = stock_list g
           \<and> last (messages g') = ''You can't afford that!''))
   \<and> (\<forall>g'. shop_screen g key = Inr g' \<longrightarrow>
          player g' \<noteq> player g \<or> stock_list g' \<noteq> stock_list g \<longrightarrow>
          gold (player g) \<ge> price entry)
   \<and> (gold (player g) \<ge> price entry \<longrightarrow>
       (stock_entry.kind entry = ''weapon'' \<longrightarrow> (\<exists>v. stock_entry.value entry = IntV v)) \<longrightarrow>
       (shop_stock g = Merchant_stock \<longrightarrow> (\<exists>d mer. dungeon g = Some d \<and> merchant d = Some mer)) \<longrightarrow>
       (\<exists>g'. shop_screen g key = Inr g'
           \<and> gold (player g') = gold (player g) - price entry
           \<and> stock_list g' = remove_nth (nat (key - 97)) (stock_list g)
           \<and> (shop_stock g = Merchant_stock \<longrightarrow> shop_stock g' = Merchant_stock
                \<and> map_option stock (merchant (the (dungeon g'))) = Some (stock_list g'))))"
proof -
  let ?entry = "stock_list g ! nat (key - 97)"
  have poor: "shop_screen g key = Inr (msg g ''You can't afford that!'')"
    if "gold (player g) < price ?entry"
    using assms that by (simp add: shop_screen_def Let_def)
  have rich: "\<exists>g'. shop_screen g key = Inr g'
           \<and> gold (player g') = gold (player g) - price ?entry
           \<and> stock_list g' = remove_nth (nat (key - 97)) (stock_list g)
           \<and> (shop_stock g = Merchant_stock \<longrightarrow> shop_stock g' = Merchant_stock
                \<and> map_option stock (merchant (the (dungeon g'))) = Some (stock_list g'))"
    if "gold (player g) \<ge> price ?entry"
      and "stock_entry.kind ?entry = ''weapon'' \<longrightarrow> (\<exists>v. stock_entry.value ?entry = IntV v)"
      and "shop_stock g = Merchant_stock \<longrightarrow> (\<exists>d mer. dungeon g = Some d \<and> merchant d = Some mer)"
  proof -
    let ?st = "remove_nth (nat (key - 97)) (stock_list g)"
    have props: "gold (player (set_stock_list g1 ?st)) = gold (player g) - price ?entry
           \<and> stock_list (set_stock_list g1 ?st) = ?st
           \<and> (shop_stock g = Merchant_stock \<longrightarrow> shop_stock (set_stock_list g1 ?st) = Merchant_stock
                \<and> map_option stock (merchant (the (dungeon (set_stock_list g1 ?st))))
                    = Some (stock_list (set_stock_list g1 ?st)))"
      if "gold (player g1) = gold (player g) - price ?entry" "dungeon g1 = dungeon g"
         "shop_stock g1 = shop_stock g" for g1
    proof -
      have wf1: "shop_stock g1 = Merchant_stock \<longrightarrow> (\<exists>d mer. dungeon g1 = Some d \<and> merchant d = Some mer)"
        using that \<open>shop_stock g = Merchant_stock \<longrightarrow> (\<exists>d mer. dungeon g = Some d \<and> merchant d = Some mer)\<close>
        by simp
      have ms: "shop_stock g = Merchant_stock \<Longrightarrow>
           map_option stock (merchant (the (dungeon (set_stock_list g1 st)))) = Some st" for st
        using wf1 that by (auto simp: set_stock_list_def)
      show ?thesis
        using that(1,3) ms
        by (simp add: stock_list_set_stock_list [OF wf1] set_stock_list_shop_stock)
    qed
    have "\<exists>g1. shop_screen g key = Inr (set_stock_list g1 ?st)
            \<and> gold (player g1) = gold (player g) - price ?entry \<and> dungeon g1 = dungeon g
            \<and> shop_stock g1 = shop_stock g"
    proof (cases "stock_entry.kind ?entry = ''weapon''")
      case True
      with that obtain v where v: "stock_entry.value ?entry = IntV v" by blast
      show ?thesis
        using assms that(1) True v
        apply (cases "v > atk_bonus (player g)")
         apply (simp_all add: shop_screen_def Let_def)
         apply (rule exI, rule conjI, rule refl, simp)+
        done
    next
      case False
      then show ?thesis
        using assms that(1)
        apply (simp add: shop_screen_def Let_def)
        apply (rule exI, rule conjI, rule refl, simp)
        done
    qed
    then obtain g1 where g1: "shop_screen g key = Inr (set_stock_list g1 ?st)"
       "gold (player g1) = gold (player g) - price ?entry" "dungeon g1 = dungeon g"
       "shop_stock g1 = shop_stock g"
      by blast
    show ?thesis
      by (rule exI [of _ "set_stock_list g1 ?st"], rule conjI [OF g1(1) props [OF g1(2-4)]])
  qed
  show ?thesis
    unfolding Let_def
    apply (intro conjI impI allI)
    subgoal using poor by (simp add: msg_last)
    subgoal for g' using poor by (cases "gold (player g) < price ?entry") auto
    subgoal using rich by blast
    done
qed

theorem shop_purchase_witness:
  "(97::int) \<le> 97 \<and> (97::int) \<le> 122 \<and> 97 - 97 < int (length (stock_list (shop_game 15)))
   \<and> price (stock_list (shop_game 15) ! 0) = 20 \<and> gold (player (shop_game 15)) = 15
   \<and> shop_screen (shop_game 15) 97 = Inr (msg (shop_game 15) ''You can't afford that!'')
   \<and> gold (player (shop_game 25)) = 25
   \<and> \<not> isl (shop_screen (shop_game 25) 97)
   \<and> gold (player (projr (shop_screen (shop_game 25) 97))) = 5
   \<and> stock_list (projr (shop_screen (shop_game 25) 97)) = []"
proof -
  have len: "stock_list (shop_game gld) = the (map_option stock (merchant demo_level))" for gld
    by (simp add: shop_game_def demo_game_def stock_list_def demo_level_def)
  have s: "length (stock_list (shop_game gld)) = 1" "price (stock_list (shop_game gld) ! 0) = 20"
    "stock_entry.kind (stock_list (shop_game gld) ! 0) = ''potion''"
     for gld
    by (simp_all add: len demo_level_def)
  have g: "gold (player (shop_game gld)) = gld" for gld
    by (simp add: shop_game_def)
  have m: "shop_stock (shop_game gld) = Merchant_stock \<longrightarrow> (\<exists>d mer. dungeon (shop_game gld) = Some d \<and> merchant d = Some mer)" for gld
    by (simp add: shop_game_def demo_game_def demo_level_def)
  have a: "(97::int) \<le> 97" "(97::int) \<le> 122" "97 - 97 < int (length (stock_list (shop_game gld)))" for gld
    by (simp_all add: s)
  from shop_purchase [OF a, of 15]
  have p: "shop_screen (shop_game 15) 97 = Inr (msg (shop_game 15) ''You can't afford that!'')"
    by (simp add: Let_def s g)
  from shop_purchase [OF a, of 25] m [of 25]
  obtain g' where r: "shop_screen (shop_game 25) 97 = Inr g'" "gold (player g') = 5"
     "stock_list g' = []"
    by (auto simp: Let_def s g remove_nth_def)
  show ?thesis
    using p r by (simp add: s g)
qed

subsection \<open>The monster sweep stops at the player's death\<close>

lemma monster_turn_returned:
  assumes "monster_turn g i = Inr (g1, True)"
  shows "player.hp (player g1) \<le> 0 \<and> state g1 = ''dead''"
  using assms
  by (auto simp: monster_turn_def Let_def bindE_eq_Inr split: option.splits if_splits)

lemma monster_turns_loop_append:
  assumes "monster_turns_loop pre g = Inr g1" and "0 < player.hp (player g1)"
  shows "monster_turns_loop (pre @ rest) g = monster_turns_loop rest g1"
  using assms
proof (induction pre arbitrary: g)
  case Nil
  then show ?case by simp
next
  case (Cons i pre)
  from Cons.prems(1) obtain g2 ret where
    t: "monster_turn g i = Inr (g2, ret)" and
    l: "(if ret then Inr g2 else monster_turns_loop pre g2) = Inr g1"
    by (auto simp: bindE_eq_Inr)
  have "\<not> ret"
  proof
    assume ret
    with t l have "monster_turn g i = Inr (g1, True)" by simp
    from monster_turn_returned [OF this] Cons.prems(2) show False by simp
  qed
  with l have "monster_turns_loop pre g2 = Inr g1" by simp
  from Cons.IH [OF this Cons.prems(2)] t \<open>\<not> ret\<close> show ?case by simp
qed

text \<open>
  C9. Let the sweep have handled the monsters \<open>pre\<close> with the player still alive, and
  let the next monster \<open>i\<close> be visible, at Manhattan distance at most 1, and its attack
  take the player's hp to 0 or below. Then the sweep ends there, whatever monsters \<open>rest\<close>
  were still to come: the result is the state after that attack with \<open>state = dead\<close>; the
  level, and so every monster, is as it was before the attack, and no further draw or
  message is made.
\<close>

theorem death_aborts_sweep:
  assumes "monster_turns_loop pre g = Inr g1" and "0 < player.hp (player g1)"
    and "dungeon g1 = Some d"
    and "py_get2 (visible d) (y (monsters d ! i)) (x (monsters d ! i)) = Inr True"
    and "\<bar>x (monsters d ! i) - x (player g1)\<bar> + \<bar>y (monsters d ! i) - y (player g1)\<bar> \<le> 1"
    and "randint 0 2 (rng g1) = Inr (r, rng1)"
    and "player.hp (player g1) - max 1 (atk (monsters d ! i) - defense (player g1) - r) \<le> 0"
  shows "\<exists>g'. monster_turns_loop (pre @ i # rest) g = Inr g'
     \<and> g' = (msg (g1\<lparr>player := (player g1)\<lparr>player.hp :=
                     player.hp (player g1) - max 1 (atk (monsters d ! i) - defense (player g1) - r)\<rparr>,
                   rng := rng1\<rparr>)
              (''The '' @ name (monsters d ! i) @ '' hits you for ''
               @ str_int (max 1 (atk (monsters d ! i) - defense (player g1) - r)) @ ''!''))
            \<lparr>state := ''dead''\<rparr>
     \<and> state g' = ''dead'' \<and> dungeon g' = dungeon g1 \<and> rng g' = rng1
     \<and> player.hp (player g') \<le> 0"
proof -
  have "monster_turns_loop (pre @ i # rest) g = monster_turns_loop (i # rest) g1"
    by (rule monster_turns_loop_append [OF assms(1,2)])
  moreover have "monster_turn g1 i =
     Inr ((msg (g1\<lparr>player := (player g1)\<lparr>player.hp :=
                     player.hp (player g1) - max 1 (atk (monsters d ! i) - defense (player g1) - r)\<rparr>,
                   rng := rng1\<rparr>)
              (''The '' @ name (monsters d ! i) @ '' hits you for ''
               @ str_int (max 1 (atk (monsters d ! i) - defense (player g1) - r)) @ ''!''))
            \<lparr>state := ''dead''\<rparr>, True)"
    using assms(3-7) by (simp add: monster_turn_def Let_def)
  ultimately show ?thesis
    using assms(7) by simp
qed

theorem death_aborts_sweep_witness:
  "monster_turns_loop [] weak_game = Inr weak_game \<and> 0 < player.hp (player weak_game)
   \<and> dungeon weak_game = Some demo_level
   \<and> py_get2 (visible demo_level) (y (monsters demo_level ! 0)) (x (monsters demo_level ! 0)) = Inr True
   \<and> \<bar>x (monsters demo_level ! 0) - x (player weak_game)\<bar> + \<bar>y (monsters demo_level ! 0) - y (player weak_game)\<bar> \<le> 1
   \<and> randint 0 2 (rng weak_game) = Inr (0, next_rng zero_rng)
   \<and> player.hp (player weak_game) - max 1 (atk (monsters demo_level ! 0) - defense (player weak_game) - 0) \<le> 0
   \<and> \<not> isl (monster_turns weak_game)
   \<and> state (projr (monster_turns weak_game)) = ''dead''
   \<and> dungeon (projr (monster_turns weak_game)) = Some demo_level
   \<and> messages (projr (monster_turns weak_game)) = [''The rat hits you for 2!'']
   \<and> player.hp (player (projr (monster_turns weak_game))) = 0"
proof -
  have h1: "monster_turns_loop [] weak_game = Inr weak_game" by simp
  have h2: "0 < player.hp (player weak_game)" by (simp add: weak_game_def)
  have h3: "dungeon weak_game = Some demo_level" by (simp add: weak_game_def demo_game_def)
  have h4: "py_get2 (visible demo_level) (y (monsters demo_level ! 0)) (x (monsters demo_level ! 0)) = Inr True"
    by (simp add: demo_level_def py_get2_def)
  have h5: "\<bar>x (monsters demo_level ! 0) - x (player weak_game)\<bar> + \<bar>y (monsters demo_level ! 0) - y (player weak_game)\<bar> \<le> 1"
    by (simp add: demo_level_def weak_game_def demo_game_def Player_def)
  have h6: "randint 0 2 (rng weak_game) = Inr (0, next_rng zero_rng)"
    by (simp add: randint_def weak_game_def demo_game_def zero_rng_def)
  have h7: "player.hp (player weak_game) - max 1 (atk (monsters demo_level ! 0) - defense (player weak_game) - 0) \<le> 0"
    by (simp add: demo_level_def weak_game_def demo_game_def Player_def)
  have mt: "monster_turns weak_game = monster_turns_loop ([] @ 0 # [1]) weak_game"
    by (simp add: monster_turns_def h3) (simp add: demo_level_def upt_rec)
  from death_aborts_sweep [OF h1 h2 h3 h4 h5 h6 h7, of "[1]"]
  obtain g' where g': "monster_turns weak_game = Inr g'" "state g' = ''dead''"
     "dungeon g' = dungeon weak_game" "player.hp (player g') \<le> 0"
     "g' = (msg (weak_game\<lparr>player := (player weak_game)\<lparr>player.hp :=
                     player.hp (player weak_game) - max 1 (atk (monsters demo_level ! 0) - defense (player weak_game) - 0)\<rparr>,
                   rng := next_rng zero_rng\<rparr>)
              (''The '' @ name (monsters demo_level ! 0) @ '' hits you for ''
               @ str_int (max 1 (atk (monsters demo_level ! 0) - defense (player weak_game) - 0)) @ ''!''))
            \<lparr>state := ''dead''\<rparr>"
    unfolding mt by blast
  have m: "messages g' = [''The rat hits you for 2!'']"
    unfolding g'(5)
  proof -
    have "str_int 2 = ''2''" by code_simp
    then show "messages
     (msg (weak_game
           \<lparr>player := player weak_game
              \<lparr>player.hp :=
                 player.hp (player weak_game) -
                 max 1
                  (atk (monsters demo_level ! 0) -
                   defense (player weak_game) -
                   0)\<rparr>,
              rng := next_rng zero_rng\<rparr>)
       (''The '' @
        name (monsters demo_level ! 0) @
        '' hits you for '' @
        str_int
         (max 1
           (atk (monsters demo_level ! 0) -
            defense (player weak_game) -
            0)) @
        ''!'')
      \<lparr>state := ''dead''\<rparr>) =
    [''The rat hits you for 2!'']"
      by (simp add: msg_def demo_level_def weak_game_def demo_game_def Player_def)
  qed
  have hp0: "player.hp (player g') = 0"
    unfolding g'(5) by (simp add: demo_level_def weak_game_def demo_game_def Player_def)
  show ?thesis
    using h1 h2 h3 h4 h5 h6 h7 g'(1-3) m hp0 by simp
qed

subsection \<open>A blocked move\<close>

text \<open>
  C2 (as the code has it). For each of the sixteen movement keys, when the target tile is
  not walkable and holds neither the merchant nor a monster, \<open>_try_move\<close> changes nothing
  at all (position, monsters, items, messages, state, generator). \<open>_handle_input\<close> has no
  notion of a consumed turn: it calls \<open>_monster_turns\<close> after every movement key, so the
  whole intent is exactly one monster sweep, like a wait.
\<close>

theorem blocked_move_still_sweeps:
  assumes "dungeon g = Some d"
    and "(key, dx, dy) \<in> set [(KEY_UP, 0, - 1), (119, 0, - 1), (107, 0, - 1),
                               (KEY_DOWN, 0, 1), (115, 0, 1), (106, 0, 1),
                               (KEY_LEFT, - 1, 0), (97, - 1, 0), (104, - 1, 0),
                               (KEY_RIGHT, 1, 0), (100, 1, 0), (108, 1, 0),
                               (121, - 1, - 1), (117, 1, - 1), (98, - 1, 1), (110, 1, 1)]"
    and "\<forall>mer. merchant d = Some mer \<longrightarrow>
           \<not> (x mer = x (player g) + dx \<and> y mer = y (player g) + dy)"
    and "monster_at d (x (player g) + dx) (y (player g) + dy) = None"
    and "is_walkable d (x (player g) + dx) (y (player g) + dy) = Inr False"
  shows "try_move F g dx dy = Inr g \<and> handle_input F g key = monster_turns g"
proof -
  have tm: "try_move F g dx dy = Inr g"
    using assms(1,3,4,5) by (auto simp: try_move_def Let_def split: option.splits)
  have ms: "dx \<noteq> 0 \<or> dy \<noteq> 0"
    using assms(2) by auto
  have hi: "handle_input F g key = move_and_sweep F g dx dy"
    using assms(2)
    apply (simp only: set_simps insert_iff empty_iff prod.inject)
    apply (elim disjE conjE)
    apply (simp_all add: handle_input_def KEY_UP_def KEY_DOWN_def KEY_LEFT_def KEY_RIGHT_def)
    done
  show ?thesis
    using tm ms hi by (simp add: move_and_sweep_def)
qed

text \<open>The small level: the tile north of the player is a wall.\<close>

lemma demo_blocked:
  "dungeon demo_game = Some demo_level"
  "\<forall>mer. merchant demo_level = Some mer \<longrightarrow>
           \<not> (x mer = x (player demo_game) + 0 \<and> y mer = y (player demo_game) + (- 1))"
  "monster_at demo_level (x (player demo_game) + 0) (y (player demo_game) + (- 1)) = None"
  "is_walkable demo_level (x (player demo_game) + 0) (y (player demo_game) + (- 1)) = Inr False"
  by (simp_all add: demo_game_def demo_level_def Player_def monster_at_def is_walkable_def
        py_get2_def WALL_def)

lemma demo_sweep:
  "monster_turns demo_game =
     Inr (msg (msg (demo_game\<lparr>player := (player demo_game)\<lparr>player.hp := 25\<rparr>,
                              rng := next_rng (next_rng zero_rng)\<rparr>)
                 (''The rat hits you for '' @ str_int 2 @ ''!''))
            (''The snake hits you for '' @ str_int 3 @ ''!''))"
proof -
  have l: "[0..<length (monsters demo_level)] = [0, 1]"
    by (simp add: demo_level_def upt_rec)
  have nz: "next_rng zero_rng 0 = 0"
    by (simp add: next_rng_def zero_rng_def)
  show ?thesis
    unfolding monster_turns_def
    apply (simp add: demo_game_def l)
    apply (simp add: monster_turn_def demo_level_def py_get2_def Player_def randint_def
        zero_rng_def Let_def msg_def next_rng_def)
    done
qed


theorem blocked_move_still_sweeps_witness:
  "dungeon demo_game = Some demo_level
   \<and> monster_at demo_level (x (player demo_game) + 0) (y (player demo_game) + (- 1)) = None
   \<and> is_walkable demo_level (x (player demo_game) + 0) (y (player demo_game) + (- 1)) = Inr False
   \<and> try_move int_ops demo_game 0 (- 1) = Inr demo_game
   \<and> handle_input int_ops demo_game 119 = monster_turns demo_game
   \<and> player.hp (player (projr (handle_input int_ops demo_game 119))) = 25"
proof -
  have k: "(119, 0, - 1) \<in> set [(KEY_UP, 0, - 1), (119, 0, - 1), (107, 0, - 1),
                               (KEY_DOWN, 0, 1), (115, 0, 1), (106, 0, 1),
                               (KEY_LEFT, - 1, 0), (97, - 1, 0), (104, - 1, 0),
                               (KEY_RIGHT, 1, 0), (100, 1, 0), (108, 1, 0),
                               (121, - 1, - 1), (117, 1, - 1), (98, - 1, 1), (110, 1, 1::int)]"
    by simp
  from blocked_move_still_sweeps [OF demo_blocked(1) k demo_blocked(2-4), of int_ops]
  have r: "try_move int_ops demo_game 0 (- 1) = Inr demo_game"
    "handle_input int_ops demo_game 119 = monster_turns demo_game"
    by simp_all
  have "player.hp (player (projr (handle_input int_ops demo_game 119))) = 25"
    unfolding r(2) demo_sweep by simp
  with r demo_blocked show ?thesis by simp
qed

text \<open>
  C2 as stated fails: in the small level the player presses the up key against the wall;
  the target holds neither merchant nor monster and is not walkable, yet the sweep runs:
  rat and snake hit, hp drops from 30 to 25 and two messages appear.
\<close>

theorem blocked_move_counterexample:
  "dungeon demo_game = Some demo_level
   \<and> merchant demo_level \<noteq> None
   \<and> (x (the (merchant demo_level)), y (the (merchant demo_level)))
        \<noteq> (x (player demo_game) + 0, y (player demo_game) + (- 1))
   \<and> monster_at demo_level (x (player demo_game) + 0) (y (player demo_game) + (- 1)) = None
   \<and> is_walkable demo_level (x (player demo_game) + 0) (y (player demo_game) + (- 1)) = Inr False
   \<and> \<not> isl (handle_input int_ops demo_game KEY_UP)
   \<and> player.hp (player demo_game) = 30
   \<and> player.hp (player (projr (handle_input int_ops demo_game KEY_UP))) = 25
   \<and> length (messages (projr (handle_input int_ops demo_game KEY_UP))) = 2
   \<and> projr (handle_input int_ops demo_game KEY_UP) \<noteq> demo_game"
proof -
  have tm: "try_move int_ops demo_game 0 (- 1) = Inr demo_game"
    using demo_blocked by (auto simp: try_move_def Let_def split: option.splits)
  have hi: "handle_input int_ops demo_game KEY_UP = monster_turns demo_game"
    by (simp add: handle_input_def move_and_sweep_def tm)
  have hp: "player.hp (player demo_game) = 30"
    by (simp add: demo_game_def Player_def)
  have ne: "projr (handle_input int_ops demo_game KEY_UP) \<noteq> demo_game"
  proof
    assume "projr (handle_input int_ops demo_game KEY_UP) = demo_game"
    then have "player.hp (player (projr (handle_input int_ops demo_game KEY_UP))) = 30"
      using hp by simp
    then show False unfolding hi demo_sweep by simp
  qed
  show ?thesis
    using demo_blocked ne hp unfolding hi demo_sweep
    by (simp add: msg_def Let_def) (simp add: demo_level_def demo_game_def)
qed

subsection \<open>Rules for the specifications of computations\<close>

lemma post_Inr [simp]: "post (Inr v) Q = Q v"
  by (simp add: post_def)
lemma post_Inl [simp]: "post (Inl e) Q"
  by (simp add: post_def)
lemma post_bindE [simp]: "post (bindE m f) Q = post m (\<lambda>v. post (f v) Q)"
  by (cases m) simp_all
lemma postD: "post m Q \<Longrightarrow> m = Inr v \<Longrightarrow> Q v"
  by (simp add: post_def)
lemma postI: "(\<And>v. m = Inr v \<Longrightarrow> Q v) \<Longrightarrow> post m Q"
  by (cases m) simp_all
lemma post_weaken: "post m Q \<Longrightarrow> (\<And>v. m = Inr v \<Longrightarrow> Q v \<Longrightarrow> Q' v) \<Longrightarrow> post m Q'"
  by (cases m) simp_all

lemma succeeds_Inr [simp]: "succeeds (Inr v) Q = Q v"
  by (simp add: succeeds_def)
lemma succeeds_Inl [simp]: "\<not> succeeds (Inl e) Q"
  by (simp add: succeeds_def)
lemma succeeds_bindE [simp]: "succeeds (bindE m f) Q = succeeds m (\<lambda>v. succeeds (f v) Q)"
  by (cases m) simp_all
lemma succeedsD: "succeeds m Q \<Longrightarrow> \<exists>v. m = Inr v \<and> Q v"
  by (cases m) simp_all
lemma succeedsI: "m = Inr v \<Longrightarrow> Q v \<Longrightarrow> succeeds m Q"
  by simp
lemma succeeds_weaken:
  "succeeds m Q \<Longrightarrow> (\<And>v. m = Inr v \<Longrightarrow> Q v \<Longrightarrow> Q' v) \<Longrightarrow> succeeds m Q'"
  by (cases m) simp_all

lemma post_bind_any: "(\<And>v. post (f v) Q) \<Longrightarrow> post (bindE m f) Q"
  by (cases m) simp_all

lemma post_bind_inv: "post m I \<Longrightarrow> (\<And>v. I v \<Longrightarrow> post (f v) Q) \<Longrightarrow> post (bindE m f) Q"
  by (cases m) simp_all

lemma post_ifI: "(c \<Longrightarrow> post A Q) \<Longrightarrow> (\<not> c \<Longrightarrow> post B Q) \<Longrightarrow> post (if c then A else B) Q"
  by simp

lemma post_case_optionI:
  "(opt = None \<Longrightarrow> post A Q) \<Longrightarrow> (\<And>v. opt = Some v \<Longrightarrow> post (B v) Q) \<Longrightarrow>
   post (case opt of None \<Rightarrow> A | Some v \<Rightarrow> B v) Q"
  by (cases opt) simp_all

lemma post_case_prodI:
  "(\<And>a b. pr = (a, b) \<Longrightarrow> post (f a b) Q) \<Longrightarrow> post (case pr of (a, b) \<Rightarrow> f a b) Q"
  by (cases pr) simp

lemma post_case_ivalI:
  "(\<And>n. iv = IntV n \<Longrightarrow> post (A n) Q) \<Longrightarrow> (\<And>a b. iv = EffV a b \<Longrightarrow> post (B a b) Q) \<Longrightarrow>
   post (case iv of IntV n \<Rightarrow> A n | EffV a b \<Rightarrow> B a b) Q"
  by (cases iv) simp_all

lemma post_LetI: "post (f e) Q \<Longrightarrow> post (Let e f) Q"
  by (simp add: Let_def)

lemmas post_intros =
  post_bind_any post_ifI post_case_optionI post_case_prodI post_case_ivalI post_LetI post_Inl

lemma post_bind_eq: "(\<And>v. m = Inr v \<Longrightarrow> post (f v) Q) \<Longrightarrow> post (bindE m f) Q"
  by (cases m) simp_all

subsection \<open>Bounds on the player's hp\<close>

lemma gain_xp_loop_hp_ok: "hp_ok p \<Longrightarrow> hp_ok (fst (gain_xp_loop p b))"
proof (induction p b rule: gain_xp_loop.induct)
  case (1 p leveled)
  show ?case
  proof (cases "player.xp p \<ge> xp_to_next p")
    case True
    have "hp_ok (level_up p)" by (simp add: hp_ok_def level_up_fields)
    from "1.IH" [OF True this] True show ?thesis
      by (subst gain_xp_loop.simps) simp
  next
    case False
    with "1.prems" show ?thesis by (subst gain_xp_loop.simps) simp
  qed
qed

lemma gain_xp_loop_pos:
  "hp_ok p \<Longrightarrow> 0 < player.hp p \<Longrightarrow> 0 < player.hp (fst (gain_xp_loop p b))"
proof (induction p b rule: gain_xp_loop.induct)
  case (1 p leveled)
  show ?case
  proof (cases "player.xp p \<ge> xp_to_next p")
    case True
    have "hp_ok (level_up p)" "0 < player.hp (level_up p)"
      using "1.prems" by (simp_all add: hp_ok_def level_up_fields)
    from "1.IH" [OF True this] True show ?thesis
      by (subst gain_xp_loop.simps) simp
  next
    case False
    with "1.prems" show ?thesis by (subst gain_xp_loop.simps) simp
  qed
qed

lemma gain_xp_hp_ok: "hp_ok p \<Longrightarrow> hp_ok (fst (gain_xp p n))"
  unfolding gain_xp_def by (rule gain_xp_loop_hp_ok) (simp add: hp_ok_def)

lemma gain_xp_pos: "hp_ok p \<Longrightarrow> 0 < player.hp p \<Longrightarrow> 0 < player.hp (fst (gain_xp p n))"
  unfolding gain_xp_def by (rule gain_xp_loop_pos) (simp_all add: hp_ok_def)


lemma monster_turn_hp:
  "post (monster_turn g i) (\<lambda>(g', b).
     player.hp (player g') \<le> player.hp (player g)
     \<and> player.max_hp (player g') = player.max_hp (player g)
     \<and> (if b then player.hp (player g') \<le> 0 \<and> state g' = ''dead''
         else (0 < player.hp (player g) \<longrightarrow> 0 < player.hp (player g')) \<and> state g' = state g))"
  unfolding monster_turn_def
  apply (intro post_intros)
  apply (simp_all split del: if_split)
  apply linarith
  done

lemma monster_turns_loop_hp:
  "post (monster_turns_loop ms g) (\<lambda>g'.
     player.hp (player g') \<le> player.hp (player g)
     \<and> player.max_hp (player g') = player.max_hp (player g)
     \<and> (0 < player.hp (player g) \<longrightarrow>
          0 < player.hp (player g') \<and> state g' = state g
          \<or> player.hp (player g') \<le> 0 \<and> state g' = ''dead''))"
proof (induction ms arbitrary: g)
  case Nil
  then show ?case by simp
next
  case (Cons i ms)
  show ?case
    unfolding monster_turns_loop.simps
    apply (rule post_bind_inv [OF monster_turn_hp])
    apply (clarsimp split del: if_split)
    apply (rule post_ifI)
     apply (simp split: if_splits)
    apply (rule post_weaken [OF Cons.IH])
    apply (auto split: if_splits)
    done
qed

lemma monster_turns_hp:
  "post (monster_turns g) (\<lambda>g'.
     player.hp (player g') \<le> player.hp (player g)
     \<and> player.max_hp (player g') = player.max_hp (player g)
     \<and> (0 < player.hp (player g) \<longrightarrow>
          0 < player.hp (player g') \<and> state g' = state g
          \<or> player.hp (player g') \<le> 0 \<and> state g' = ''dead''))"
  unfolding monster_turns_def
  by (intro post_case_optionI post_Inl monster_turns_loop_hp)

lemma attack_monster_hp_ok:
  "hp_ok (player g) \<Longrightarrow> post (attack_monster g i) (\<lambda>g'. hp_ok (player g'))"
  unfolding attack_monster_def
  apply (intro post_intros)
   apply (simp_all split del: if_split add: gain_xp_hp_ok)
   apply (simp_all add: hp_ok_def gain_xp_hp_ok [unfolded hp_ok_def])
  done

lemma attack_monster_pos:
  "hp_ok (player g) \<Longrightarrow> 0 < player.hp (player g) \<Longrightarrow>
   post (attack_monster g i) (\<lambda>g'. 0 < player.hp (player g'))"
  unfolding attack_monster_def
  apply (intro post_intros)
   apply (simp_all split del: if_split add: gain_xp_pos)
   apply (simp_all add: hp_ok_def gain_xp_pos [unfolded hp_ok_def])
  done

lemma pickup_hp:
  "post (pickup g j) (\<lambda>g'. player.hp (player g') = player.hp (player g)
      \<and> player.max_hp (player g') = player.max_hp (player g) \<and> state g' = state g)"
  unfolding pickup_def
  apply (rule post_case_optionI, simp)
  apply (simp only: Let_def)
  apply (rule post_bind_inv [where I = "\<lambda>g'. player.hp (player g') = player.hp (player g)
      \<and> player.max_hp (player g') = player.max_hp (player g) \<and> state g' = state g"])
   apply (intro post_intros)
       apply (simp_all split del: if_split)
  done

lemma compute_fov_any: "post (compute_fov F d px py rad) (\<lambda>_. True)"
  by (rule postI) simp

lemma try_move_hp:
  assumes "hp_ok (player g)"
  shows "post (try_move F g dx dy) (\<lambda>g'. hp_ok (player g')
           \<and> (0 < player.hp (player g) \<longrightarrow> 0 < player.hp (player g')))"
  unfolding try_move_def
  apply (rule post_case_optionI, simp)
  apply (simp only: Let_def)
  apply (rule post_ifI)
   apply (simp add: assms [unfolded hp_ok_def] hp_ok_def)
  apply (rule post_case_optionI)
   apply (rule post_bind_any)
   apply (rule post_ifI)
    apply (rule post_bind_any)
    apply (rule post_case_optionI)
     apply (simp add: assms [unfolded hp_ok_def] hp_ok_def)
    apply (rule post_weaken [OF pickup_hp])
    apply (simp add: assms [unfolded hp_ok_def] hp_ok_def)
   apply (simp add: assms [unfolded hp_ok_def] hp_ok_def)
  apply (rule postI)
  apply (intro conjI impI)
   apply (erule postD [OF attack_monster_hp_ok [OF assms]])
  apply (erule postD [OF attack_monster_pos [OF assms]])
  apply assumption
  done

lemma new_level_player:
  "post (new_level F g dep) (\<lambda>g'.
     player.hp (player g') = player.hp (player g)
     \<and> player.max_hp (player g') = player.max_hp (player g) \<and> state g' = state g)"
  unfolding new_level_def
  apply (intro post_intros)
  apply (simp split del: if_split)
  done

lemma try_descend_player:
  "post (try_descend F g) (\<lambda>g'.
     player.hp (player g') = player.hp (player g)
     \<and> player.max_hp (player g') = player.max_hp (player g) \<and> state g' = state g)"
  unfolding try_descend_def
  apply (intro post_intros new_level_player)
  apply (simp_all split del: if_split)
  done


lemma scroll_damage_hp:
  "hp_ok p \<Longrightarrow>
   post (scroll_damage vis ms kept p r tot)
     (\<lambda>(ms', p', r', tot'). hp_ok p' \<and> (0 < player.hp p \<longrightarrow> 0 < player.hp p'))"
proof (induction ms arbitrary: kept p r tot)
  case Nil
  then show ?case by simp
next
  case (Cons m ms)
  let ?p1 = "fst (gain_xp (p\<lparr>kills := kills p + 1\<rparr>) (monster.xp m))"
  have k: "hp_ok (p\<lparr>kills := kills p + 1\<rparr>)"
    using Cons.prems by (simp add: hp_ok_def)
  have a: "hp_ok ?p1"
    by (rule gain_xp_hp_ok [OF k])
  have b: "0 < player.hp p \<Longrightarrow> 0 < player.hp ?p1"
    using gain_xp_pos [OF k] by simp
  show ?case
    unfolding scroll_damage.simps
    apply (intro post_intros)
      apply simp
      apply (rule post_weaken [OF Cons.IH [OF a]])
      apply (use b in auto)[1]
     apply (rule Cons.IH [OF Cons.prems])
    apply (rule Cons.IH [OF Cons.prems])
    done
qed


lemma use_item_hp:
  assumes "hp_ok (player g)"
  shows "post (use_item g idx) (\<lambda>g'. hp_ok (player g') \<and> state g' = state g
     \<and> (0 < player.hp (player g) \<longrightarrow>
          (\<forall>it heal. py_get (inventory (player g)) idx = Inr it \<longrightarrow> kind it = ''potion'' \<longrightarrow>
                value it = IntV heal \<longrightarrow> 0 \<le> heal) \<longrightarrow>
          0 < player.hp (player g')))"
proof -
  let ?I = "\<lambda>g'. hp_ok (player g') \<and> state g' = state g
     \<and> (0 < player.hp (player g) \<longrightarrow>
          (\<forall>it heal. py_get (inventory (player g)) idx = Inr it \<longrightarrow> kind it = ''potion'' \<longrightarrow>
                value it = IntV heal \<longrightarrow> 0 \<le> heal) \<longrightarrow>
          0 < player.hp (player g'))"
  note h = assms [unfolded hp_ok_def]
  show ?thesis
    unfolding use_item_def
    apply (simp only: Let_def)
    apply (rule post_bind_eq)
    apply (rule post_bind_inv [where I = ?I])
     apply (rule post_ifI)
      apply (rule post_case_ivalI)
       apply (use h in \<open>simp add: hp_ok_def\<close>)
      apply simp
     apply (rule post_ifI)
      apply (rule post_case_ivalI)
       apply simp
      apply (rule post_ifI)
       apply (rule post_case_optionI)
        apply simp
       apply (rule post_bind_inv [OF scroll_damage_hp [OF assms]])
       apply (clarsimp)
      apply (rule post_ifI)
       apply (use h in \<open>simp add: hp_ok_def\<close>)
      apply (rule post_ifI)
       apply (use h in \<open>simp add: hp_ok_def\<close>)
      apply (rule post_ifI)
       apply (use h in \<open>simp add: hp_ok_def\<close>)
      apply (rule post_ifI)
       apply (rule post_case_optionI)
        apply simp
       apply (rule post_bind_any)
       apply (use h in \<open>simp add: hp_ok_def\<close>)
      apply (use h in \<open>simp add: hp_ok_def\<close>)
     apply (use h in \<open>simp add: hp_ok_def\<close>)
    apply (rule post_bind_any)
    apply (simp add: hp_ok_def)
    done
qed

lemma inventory_screen_hp:
  assumes "hp_ok (player g)"
  shows "post (inventory_screen g key) (\<lambda>g'. hp_ok (player g'))"
  unfolding inventory_screen_def
  apply (simp only: Let_def)
  apply (intro post_ifI)
     apply (use assms in simp)
    apply (rule post_bind_inv [OF use_item_hp [OF assms]])
    apply simp
   apply (use assms in simp_all)
  done

lemma set_stock_list_state [simp]: "state (set_stock_list g st) = state g"
  by (simp add: set_stock_list_def split: stock_ref.splits)

lemma shop_screen_hp:
  "post (shop_screen g key) (\<lambda>g'. player.hp (player g') = player.hp (player g)
      \<and> player.max_hp (player g') = player.max_hp (player g))"
  unfolding shop_screen_def
  apply (simp only: Let_def)
  apply (rule post_ifI)
   apply simp
  apply (rule post_ifI)
   apply (rule post_ifI)
    apply (rule post_bind_any)
    apply (rule post_ifI)
     apply (rule post_bind_inv [where I = "\<lambda>g'. player.hp (player g') = player.hp (player g)
      \<and> player.max_hp (player g') = player.max_hp (player g)"])
  subgoal by (intro post_intros) (simp_all split del: if_split)
  subgoal by (rule post_bind_any) simp
  subgoal by simp
  subgoal by simp
  subgoal by simp
  done

lemma title_screen_hp: "post (title_screen F g key) (\<lambda>g'. hp_ok (player g'))"
  unfolding title_screen_def
  apply (rule post_weaken [OF new_level_player])
  apply (simp add: hp_ok_def Player_def)
  done

lemma move_and_sweep_hp:
  assumes "hp_ok (player g)"
  shows "post (move_and_sweep F g dx dy) (\<lambda>g'. hp_ok (player g'))"
  unfolding move_and_sweep_def
  apply (rule post_bind_inv [where I = "\<lambda>g'. hp_ok (player g')"])
   apply (rule post_ifI)
    apply (rule post_weaken [OF try_move_hp [OF assms]])
    apply simp
   apply (use assms in simp)
  apply (rule post_weaken [OF monster_turns_hp])
  apply (simp add: hp_ok_def)
  done

lemma handle_input_hp:
  assumes "hp_ok (player g)"
  shows "post (handle_input F g key) (\<lambda>g'. hp_ok (player g'))"
  unfolding handle_input_def
  apply (intro post_ifI move_and_sweep_hp [OF assms])
     apply (rule post_weaken [OF try_descend_player])
     apply (use assms in \<open>simp add: hp_ok_def\<close>)
    apply (use assms in simp_all)
  done

lemma run_step_hp:
  assumes "hp_ok (player g)"
  shows "post (run_step F g key) (\<lambda>g'. hp_ok (player g'))"
  unfolding run_step_def
  apply (intro post_ifI title_screen_hp handle_input_hp [OF assms] inventory_screen_hp [OF assms])
     apply (use assms in \<open>simp add: death_screen_def\<close>)
    apply (rule post_weaken [OF shop_screen_hp])
    apply (use assms in \<open>simp add: hp_ok_def\<close>)
   apply (use assms in \<open>simp add: win_screen_def\<close>)
  apply (use assms in simp)
  done

lemma reachable_hp_ok: "reachable F g \<Longrightarrow> hp_ok (player g)"
proof (induction rule: reachable.induct)
  case (init r)
  show ?case by (simp add: Game_def Player_def hp_ok_def)
next
  case (step g key g')
  from postD [OF run_step_hp [OF step.IH] step.hyps(3)] show ?case .
qed




subsection \<open>Grids\<close>

lemma grid_le_refl [simp]: "grid_le a a"
  by (simp add: grid_le_def)

lemma grid_le_trans: "grid_le a b \<Longrightarrow> grid_le b c \<Longrightarrow> grid_le a c"
  by (auto simp: grid_le_def)

lemma py_index_Inr: "py_index xs i = Inr n \<Longrightarrow> n < length xs"
  by (auto simp: py_index_def Let_def split: if_splits)

lemma py_set2_shape:
  assumes "py_set2 g y0 x0 v = Inr g'"
  shows "\<exists>j i. j < length g \<and> i < length (g ! j) \<and> g' = g[j := (g ! j)[i := v]]"
  using assms
  by (auto simp: py_set2_def bindE_eq_Inr dest: py_index_Inr)

lemma nth_update_True: "k < length xs \<Longrightarrow> xs ! k \<Longrightarrow> xs[i := True] ! k"
  by (cases "i = k") simp_all

lemma length_row_update:
  "k < length g \<Longrightarrow> length (g[j := (g ! j)[i := v]] ! k) = length (g ! k)"
  by (cases "j = k") simp_all

lemma nth_grid_update: "k < length g \<Longrightarrow> g[j := r] ! k = (if j = k then r else g ! k)"
  by (cases "j = k") simp_all

lemma grid_le_update: "grid_le g (g[j := (g ! j)[i := True]])"
  by (simp add: grid_le_def nth_grid_update nth_update_True)

lemma py_set2_True_le: "py_set2 g y0 x0 True = Inr g' \<Longrightarrow> grid_le g g'"
  by (auto dest!: py_set2_shape intro: grid_le_update)

lemma py_set2_in:
  "0 \<le> y0 \<Longrightarrow> y0 < int (length g) \<Longrightarrow> 0 \<le> x0 \<Longrightarrow> x0 < int (length (g ! nat y0)) \<Longrightarrow>
   py_set2 g y0 x0 v = Inr (g[nat y0 := (g ! nat y0)[nat x0 := v]])"
  by (simp add: py_set2_def)

lemma py_get2_in:
  "0 \<le> y0 \<Longrightarrow> y0 < int (length g) \<Longrightarrow> 0 \<le> x0 \<Longrightarrow> x0 < int (length (g ! nat y0)) \<Longrightarrow>
   py_get2 g y0 x0 = Inr (g ! nat y0 ! nat x0)"
  by (simp add: py_get2_def)

lemma grid_ok_row: "grid_ok g hh ww \<Longrightarrow> j < length g \<Longrightarrow> length (g ! j) = nat ww"
  by (simp add: grid_ok_def)

lemma grid_ok_nth: "grid_ok g hh ww \<longleftrightarrow> length g = nat hh \<and> (\<forall>k < length g. length (g ! k) = nat ww)"
  by (auto simp: grid_ok_def all_set_conv_all_nth)

lemma grid_ok_update:
  "grid_ok g hh ww \<Longrightarrow> grid_ok (g[j := (g ! j)[i := v]]) hh ww"
  by (simp add: grid_ok_nth length_row_update)

lemma grid_ok_bounds:
  assumes "grid_ok g hh ww" "0 \<le> y0" "y0 < hh" "0 \<le> x0" "x0 < ww"
  shows "y0 < int (length g)" "x0 < int (length (g ! nat y0))"
  using assms by (auto simp: grid_ok_def)

lemma grid_le_ok: "grid_le a b \<Longrightarrow> grid_ok a hh ww \<Longrightarrow> grid_ok b hh ww"
  by (simp add: grid_le_def grid_ok_nth)

subsection \<open>Field of view: what a ray can change\<close>

lemma cast_ray_post:
  "post (cast_ray F dx dy n fx fy d) (\<lambda>d'.
     grid_le (revealed d) (revealed d') \<and> grid_le (visible d) (visible d')
     \<and> tiles d' = tiles d \<and> w d' = w d \<and> h d' = h d)"
proof (induction n arbitrary: fx fy d)
  case 0
  show ?case by simp
next
  case (Suc n)
  show ?case
    unfolding cast_ray.simps
    apply (simp only: Let_def)
    apply (rule post_ifI)
     apply (rule post_bind_eq)
     apply (rule post_bind_eq)
     apply (rule post_bind_any)
     apply (rule post_ifI)
      apply (simp add: py_set2_True_le)
     apply (rule post_weaken [OF Suc.IH])
     apply (auto dest!: py_set2_True_le intro: grid_le_trans)[1]
    apply simp
    done
qed

lemma cast_rays_post:
  "post (cast_rays F px py radius as d) (\<lambda>d'.
     grid_le (revealed d) (revealed d') \<and> grid_le (visible d) (visible d')
     \<and> tiles d' = tiles d \<and> w d' = w d \<and> h d' = h d)"
proof (induction as arbitrary: d)
  case Nil
  show ?case by simp
next
  case (Cons a as)
  show ?case
    unfolding cast_rays.simps
    apply (simp only: Let_def)
    apply (rule post_bind_inv [OF cast_ray_post])
    apply (rule post_weaken [OF Cons.IH])
    apply (auto intro: grid_le_trans)
    done
qed

lemma compute_fov_post:
  "post (compute_fov F d px py radius) (\<lambda>d'.
     grid_le (revealed d) (revealed d') \<and> tiles d' = tiles d \<and> w d' = w d \<and> h d' = h d)"
  unfolding compute_fov_def
  by (rule post_weaken [OF cast_rays_post]) simp

lemma fill_cells_True_post: "post (fill_cells True cs g) (grid_le g)"
proof (induction cs arbitrary: g)
  case Nil
  show ?case by simp
next
  case (Cons c cs)
  show ?case
    unfolding fill_cells.simps
    apply (rule post_bind_eq)
    apply (rule post_weaken [OF Cons.IH])
    apply (auto dest!: py_set2_True_le intro: grid_le_trans)
    done
qed

lemma reveal_all_post:
  "post (reveal_all d) (\<lambda>d'.
     grid_le (revealed d) (revealed d') \<and> tiles d' = tiles d \<and> w d' = w d \<and> h d' = h d
     \<and> visible d' = visible d)"
  unfolding reveal_all_def
  apply (rule post_bind_inv [OF fill_cells_True_post])
  apply simp
  done

lemma run_vis_ops_post:
  "post (run_vis_ops F ops d) (\<lambda>d'. grid_le (revealed d) (revealed d'))"
proof (induction ops arbitrary: d)
  case Nil
  show ?case by simp
next
  case (Cons op ops)
  show ?case
  proof (cases op)
    case (Compute_fov px py radius)
    show ?thesis
      unfolding Compute_fov run_vis_ops.simps
      apply (rule post_bind_inv [OF compute_fov_post])
      apply (rule post_weaken [OF Cons.IH])
      apply (auto intro: grid_le_trans)
      done
  next
    case Reveal_all
    show ?thesis
      unfolding Reveal_all run_vis_ops.simps
      apply (rule post_bind_inv [OF reveal_all_post])
      apply (rule post_weaken [OF Cons.IH])
      apply (auto intro: grid_le_trans)
      done
  qed
qed

subsection \<open>Field of view on a well-formed level\<close>

lemma succeeds_post: "succeeds m (\<lambda>_. True) \<Longrightarrow> post m Q \<Longrightarrow> succeeds m Q"
  by (cases m) simp_all

lemma succeeds_conj: "succeeds m P \<Longrightarrow> post m Q \<Longrightarrow> succeeds m (\<lambda>v. P v \<and> Q v)"
  by (cases m) simp_all

lemma succeeds_bind_inv:
  "succeeds m I \<Longrightarrow> (\<And>v. m = Inr v \<Longrightarrow> I v \<Longrightarrow> succeeds (f v) Q) \<Longrightarrow> succeeds (bindE m f) Q"
  by (cases m) simp_all

lemma succeeds_ifI:
  "(c \<Longrightarrow> succeeds A Q) \<Longrightarrow> (\<not> c \<Longrightarrow> succeeds B Q) \<Longrightarrow> succeeds (if c then A else B) Q"
  by simp

declare cast_ray.simps(2) [simp del]

lemma level_ok_mark: "level_ok d \<Longrightarrow> level_ok (mark_tile d c)"
  by (simp add: level_ok_def mark_tile_def grid_ok_update)

lemma mark_tile_fields [simp]:
  "tiles (mark_tile d c) = tiles d" "w (mark_tile d c) = w d" "h (mark_tile d c) = h d"
  by (simp_all add: mark_tile_def)

lemma in_grid_mark [simp]: "in_grid (mark_tile d c) c' = in_grid d c'"
  by (simp add: in_grid_def)

lemma tile_at_mark [simp]: "tile_at (mark_tile d c) c' = tile_at d c'"
  by (simp add: tile_at_def)

lemma cast_ray_Suc_in:
  assumes "level_ok d" and "in_grid d (int_round F fy, int_round F fx)"
  shows "cast_ray F dx dy (Suc n) fx fy d =
           (if tile_at d (int_round F fy, int_round F fx) = WALL
            then Inr (mark_tile d (int_round F fy, int_round F fx))
            else cast_ray F dx dy n (f_add F fx dx) (f_add F fy dy)
                   (mark_tile d (int_round F fy, int_round F fx)))"
proof -
  let ?ix = "int_round F fx" and ?iy = "int_round F fy"
  from assms have b: "0 \<le> ?ix" "?ix < w d" "0 \<le> ?iy" "?iy < h d"
    by (simp_all add: in_grid_def)
  from assms(1) have g: "grid_ok (tiles d) (h d) (w d)" "grid_ok (visible d) (h d) (w d)"
    "grid_ok (revealed d) (h d) (w d)"
    by (simp_all add: level_ok_def)
  have v: "py_set2 (visible d) ?iy ?ix True =
             Inr ((visible d)[nat ?iy := (visible d ! nat ?iy)[nat ?ix := True]])"
    by (rule py_set2_in [OF b(3) grid_ok_bounds(1) [OF g(2) b(3,4,1,2)] b(1)
          grid_ok_bounds(2) [OF g(2) b(3,4,1,2)]])
  have r: "py_set2 (revealed d) ?iy ?ix True =
             Inr ((revealed d)[nat ?iy := (revealed d ! nat ?iy)[nat ?ix := True]])"
    by (rule py_set2_in [OF b(3) grid_ok_bounds(1) [OF g(3) b(3,4,1,2)] b(1)
          grid_ok_bounds(2) [OF g(3) b(3,4,1,2)]])
  have t: "py_get2 (tiles d) ?iy ?ix = Inr (tiles d ! nat ?iy ! nat ?ix)"
    by (rule py_get2_in [OF b(3) grid_ok_bounds(1) [OF g(1) b(3,4,1,2)] b(1)
          grid_ok_bounds(2) [OF g(1) b(3,4,1,2)]])
  show ?thesis
    using b by (simp add: cast_ray.simps(2) Let_def v r t mark_tile_def tile_at_def)
qed

lemma cast_ray_Suc_out:
  assumes "\<not> in_grid d (int_round F fy, int_round F fx)"
  shows "cast_ray F dx dy (Suc n) fx fy d = Inr d"
  using assms by (auto simp: cast_ray.simps(2) in_grid_def Let_def)

lemma cast_ray_ok: "level_ok d \<Longrightarrow> succeeds (cast_ray F dx dy n fx fy d) level_ok"
proof (induction n arbitrary: fx fy d)
  case 0
  then show ?case by simp
next
  case (Suc n)
  show ?case
  proof (cases "in_grid d (int_round F fy, int_round F fx)")
    case True
    show ?thesis
      using Suc.IH [OF level_ok_mark [OF Suc.prems]] level_ok_mark [OF Suc.prems]
      by (simp add: cast_ray_Suc_in [OF Suc.prems True])
  next
    case False
    then show ?thesis using Suc.prems by (simp add: cast_ray_Suc_out)
  qed
qed

lemma cast_rays_ok: "level_ok d \<Longrightarrow> succeeds (cast_rays F px py radius as d) level_ok"
proof (induction as arbitrary: d)
  case Nil
  then show ?case by simp
next
  case (Cons a as)
  show ?case
    unfolding cast_rays.simps
    apply (simp only: Let_def)
    apply (rule succeeds_bind_inv [OF cast_ray_ok [OF Cons.prems]])
    apply (erule Cons.IH)
    done
qed

lemma grid_ok_clear: "grid_ok g hh ww \<Longrightarrow> grid_ok (map (map (\<lambda>_. False)) g) hh ww"
  by (simp add: grid_ok_def)

lemma compute_fov_ok: "level_ok d \<Longrightarrow> succeeds (compute_fov F d px py radius) level_ok"
  unfolding compute_fov_def
  by (rule cast_rays_ok) (simp add: level_ok_def grid_ok_clear)

lemma grid_ok_bounds_nat:
  assumes "grid_ok g hh ww" "0 \<le> y0" "y0 < hh" "0 \<le> x0" "x0 < ww"
  shows "nat y0 < length g" "nat x0 < length (g ! nat y0)"
  using grid_ok_bounds [OF assms] assms(2,4) by simp_all

lemma ray_tile_0 [simp]: "ray_tile F dx dy fx fy 0 = (int_round F fy, int_round F fx)"
  by (simp add: ray_tile_def)

lemma ray_tile_Suc:
  "ray_tile F dx dy fx fy (Suc j) = ray_tile F dx dy (f_add F fx dx) (f_add F fy dy) j"
  by (simp add: ray_tile_def)

lemma cast_ray_stops:
  assumes "level_ok d" and "k < n"
    and "\<forall>j<k. in_grid d (ray_tile F dx dy fx fy j) \<and> tile_at d (ray_tile F dx dy fx fy j) \<noteq> WALL"
    and "\<not> in_grid d (ray_tile F dx dy fx fy k) \<or> tile_at d (ray_tile F dx dy fx fy k) = WALL"
  shows "cast_ray F dx dy n fx fy d = cast_ray F dx dy (Suc k) fx fy d"
  using assms
proof (induction k arbitrary: n fx fy d)
  case 0
  from "0.prems"(2) obtain n' where n: "n = Suc n'" by (cases n) auto
  show ?case
  proof (cases "in_grid d (int_round F fy, int_round F fx)")
    case True
    with "0.prems"(4) have "tile_at d (int_round F fy, int_round F fx) = WALL" by simp
    then show ?thesis
      unfolding n by (simp add: cast_ray_Suc_in [OF "0.prems"(1) True])
  next
    case False
    then show ?thesis unfolding n by (simp add: cast_ray_Suc_out)
  qed
next
  case (Suc k)
  from Suc.prems(2) obtain n' where n: "n = Suc n'" "k < n'" by (cases n) auto
  let ?c = "(int_round F fy, int_round F fx)"
  from Suc.prems(3) have c0: "in_grid d ?c" "tile_at d ?c \<noteq> WALL"
    by (auto dest: spec [of _ 0])
  have rest: "\<forall>j<k. in_grid (mark_tile d ?c) (ray_tile F dx dy (f_add F fx dx) (f_add F fy dy) j)
       \<and> tile_at (mark_tile d ?c) (ray_tile F dx dy (f_add F fx dx) (f_add F fy dy) j) \<noteq> WALL"
    using Suc.prems(3) by (auto simp: ray_tile_Suc [symmetric])
  have stop: "\<not> in_grid (mark_tile d ?c) (ray_tile F dx dy (f_add F fx dx) (f_add F fy dy) k)
       \<or> tile_at (mark_tile d ?c) (ray_tile F dx dy (f_add F fx dx) (f_add F fy dy) k) = WALL"
    using Suc.prems(4) by (simp add: ray_tile_Suc [symmetric])
  from Suc.IH [OF level_ok_mark [OF Suc.prems(1)] n(2) rest stop]
  show ?case
    unfolding n(1) by (simp add: cast_ray_Suc_in [OF Suc.prems(1) c0(1)] c0(2))
qed

lemma mark_tile_visible_other:
  "c \<noteq> (int j, int i) \<Longrightarrow> 0 \<le> fst c \<Longrightarrow> 0 \<le> snd c \<Longrightarrow>
   visible (mark_tile d c) ! j ! i = visible d ! j ! i"
proof (cases "j = nat (fst c)")
  case False
  then show ?thesis by (simp add: mark_tile_def)
next
  case True
  assume "c \<noteq> (int j, int i)" "0 \<le> fst c" "0 \<le> snd c"
  with True have ne: "nat (snd c) \<noteq> i"
    by (cases c) auto
  show ?thesis
  proof (cases "j < length (visible d)")
    case True
    with \<open>j = nat (fst c)\<close> ne show ?thesis by (simp add: mark_tile_def)
  next
    case False
    then have "(visible d)[j := r] = visible d" for r
      by (intro list_update_beyond) simp
    then show ?thesis by (simp add: mark_tile_def \<open>j = nat (fst c)\<close> [symmetric])
  qed
qed

lemma mark_tile_visible_self:
  assumes "level_ok d" and "in_grid d c"
  shows "visible (mark_tile d c) ! nat (fst c) ! nat (snd c)"
proof -
  from assms have g: "grid_ok (visible d) (h d) (w d)"
    and b: "0 \<le> fst c" "fst c < h d" "0 \<le> snd c" "snd c < w d"
    by (simp_all add: level_ok_def in_grid_def)
  from grid_ok_bounds_nat [OF g b] show ?thesis
    by (simp add: mark_tile_def)
qed

lemma cast_ray_changes:
  "level_ok d \<Longrightarrow>
   post (cast_ray F dx dy n fx fy d) (\<lambda>d'.
     \<forall>j i. (\<forall>m<n. ray_tile F dx dy fx fy m \<noteq> (int j, int i)) \<longrightarrow>
           visible d' ! j ! i = visible d ! j ! i)"
proof (induction n arbitrary: fx fy d)
  case 0
  show ?case by simp
next
  case (Suc n)
  let ?c = "(int_round F fy, int_round F fx)"
  show ?case
  proof (cases "in_grid d ?c")
    case False
    then show ?thesis by (simp add: cast_ray_Suc_out)
  next
    case True
    then have nn: "0 \<le> fst ?c" "0 \<le> snd ?c" by (simp_all add: in_grid_def)
    have other: "visible (mark_tile d ?c) ! j ! i = visible d ! j ! i"
      if "\<forall>m<Suc n. ray_tile F dx dy fx fy m \<noteq> (int j, int i)" for j i
    proof -
      from that have "?c \<noteq> (int j, int i)" by (auto dest: spec [of _ 0])
      from mark_tile_visible_other [OF this nn] show ?thesis .
    qed
    show ?thesis
      unfolding cast_ray_Suc_in [OF Suc.prems True]
      apply (rule post_ifI)
       apply (simp add: other)
      apply (rule post_weaken [OF Suc.IH [OF level_ok_mark [OF Suc.prems]]])
      apply (intro allI impI)
      subgoal premises p for d' j i
      proof -
        from p(4) have "\<forall>m<n. ray_tile F dx dy (f_add F fx dx) (f_add F fy dy) m \<noteq> (int j, int i)"
          by (auto simp: ray_tile_Suc [symmetric])
        with p(3) have "visible d' ! j ! i = visible (mark_tile d ?c) ! j ! i" by blast
        with other [OF p(4)] show ?thesis by simp
      qed
      done
  qed
qed

lemma grid_leD: "grid_le a b \<Longrightarrow> j < length a \<Longrightarrow> i < length (a ! j) \<Longrightarrow> a ! j ! i \<Longrightarrow> b ! j ! i"
  by (simp add: grid_le_def)

lemma first_step_marks:
  assumes "level_ok d" and "in_grid d (int_round F fy, int_round F fx)"
  shows "succeeds (cast_ray F dx dy (Suc n) fx fy d)
           (\<lambda>d'. level_ok d' \<and> visible d' ! nat (int_round F fy) ! nat (int_round F fx))"
proof -
  let ?c = "(int_round F fy, int_round F fx)"
  let ?m = "mark_tile d ?c"
  have ok: "level_ok ?m" by (rule level_ok_mark [OF assms(1)])
  have self: "visible ?m ! nat (int_round F fy) ! nat (int_round F fx)"
    using mark_tile_visible_self [OF assms] by simp
  from assms have b: "0 \<le> int_round F fy" "int_round F fy < h d" "0 \<le> int_round F fx"
    "int_round F fx < w d"
    by (simp_all add: in_grid_def)
  from ok have g: "grid_ok (visible ?m) (h d) (w d)" by (simp add: level_ok_def)
  from grid_ok_bounds_nat [OF g b] have len: "nat (int_round F fy) < length (visible ?m)"
    "nat (int_round F fx) < length (visible ?m ! nat (int_round F fy))"
    by simp_all
  have "succeeds (cast_ray F dx dy n (f_add F fx dx) (f_add F fy dy) ?m)
           (\<lambda>d'. level_ok d' \<and> visible d' ! nat (int_round F fy) ! nat (int_round F fx))"
    apply (rule succeeds_weaken [OF succeeds_conj [OF cast_ray_ok [OF ok] cast_ray_post]])
    apply (auto intro: grid_leD [OF _ len self])
    done
  then show ?thesis
    unfolding cast_ray_Suc_in [OF assms] using ok self by simp
qed

lemma cast_rays_keeps:
  assumes "level_ok d" and "j < length (visible d)" and "i < length (visible d ! j)"
    and "visible d ! j ! i"
  shows "succeeds (cast_rays F px py radius as d) (\<lambda>d'. level_ok d' \<and> visible d' ! j ! i)"
  apply (rule succeeds_weaken [OF succeeds_conj [OF cast_rays_ok [OF assms(1)] cast_rays_post]])
  apply (auto intro: grid_leD [OF _ assms(2,3,4)])
  done

lemma compute_fov_viewer:
  assumes "level_ok d" and "1 \<le> radius" and "in_grid d (py, px)"
    and "int_round F (to_float F px) = px" and "int_round F (to_float F py) = py"
  shows "succeeds (compute_fov F d px py radius)
           (\<lambda>d'. level_ok d' \<and> visible d' ! nat py ! nat px)"
proof -
  let ?d0 = "d\<lparr>visible := map (map (\<lambda>_. False)) (visible d)\<rparr>"
  have ok0: "level_ok ?d0"
    using assms(1) by (simp add: level_ok_def grid_ok_clear)
  have in0: "in_grid ?d0 (int_round F (to_float F py), int_round F (to_float F px))"
    using assms(3,4,5) by (simp add: in_grid_def)
  from assms(2) obtain n where n: "nat radius = Suc n"
    by (cases "nat radius") auto
  have rays: "[0..<360] = 0 # [Suc 0..<360]"
    by (simp add: upt_conv_Cons)
  show ?thesis
    unfolding compute_fov_def rays cast_rays.simps n
    apply (simp only: Let_def)
    apply (rule succeeds_bind_inv [OF first_step_marks [OF ok0 in0]])
    apply (simp only: assms(4,5))
    apply (erule conjE)
    subgoal premises p for d1
    proof -
      from p(2) have g: "grid_ok (visible d1) (h d1) (w d1)" by (simp add: level_ok_def)
      from postD [OF cast_ray_post p(1)] have wh: "w d1 = w d" "h d1 = h d" by simp_all
      from assms(3) have b: "0 \<le> py" "py < h d1" "0 \<le> px" "px < w d1"
        by (simp_all add: in_grid_def wh)
      from grid_ok_bounds_nat [OF g b] have len: "nat py < length (visible d1)"
        "nat px < length (visible d1 ! nat py)"
        by simp_all
      from cast_rays_keeps [OF p(2) len p(3)] show ?thesis .
    qed
    done
qed

subsection \<open>Revealed tiles stay revealed\<close>

lemma nth2_update:
  "j < length g \<Longrightarrow> i < length (g ! j) \<Longrightarrow>
   g[a := (g ! a)[b := v]] ! j ! i = (if a = j \<and> b = i then v else g ! j ! i)"
  by (cases "a = j") (auto simp: nth_list_update)

lemma fill_cells_ok:
  assumes "grid_ok g hh ww"
    and "\<forall>c \<in> set cs. 0 \<le> fst c \<and> fst c < hh \<and> 0 \<le> snd c \<and> snd c < ww"
  shows "succeeds (fill_cells v cs g) (\<lambda>g'. grid_ok g' hh ww
           \<and> (\<forall>j i. j < nat hh \<longrightarrow> i < nat ww \<longrightarrow>
                 g' ! j ! i = (if (int j, int i) \<in> set cs then v else g ! j ! i)))"
  using assms
proof (induction cs arbitrary: g)
  case Nil
  then show ?case by simp
next
  case (Cons c cs)
  let ?g1 = "g[nat (fst c) := (g ! nat (fst c))[nat (snd c) := v]]"
  from Cons.prems(2) have b: "0 \<le> fst c" "fst c < hh" "0 \<le> snd c" "snd c < ww"
    by simp_all
  have s: "py_set2 g (fst c) (snd c) v = Inr ?g1"
    by (rule py_set2_in [OF b(1) grid_ok_bounds(1) [OF Cons.prems(1) b] b(3)
          grid_ok_bounds(2) [OF Cons.prems(1) b]])
  have ok1: "grid_ok ?g1 hh ww"
    by (rule grid_ok_update [OF Cons.prems(1)])
  from Cons.prems(2) have rest: "\<forall>c \<in> set cs. 0 \<le> fst c \<and> fst c < hh \<and> 0 \<le> snd c \<and> snd c < ww"
    by simp
  have one: "?g1 ! j ! i = (if (int j, int i) = c then v else g ! j ! i)"
    if "j < nat hh" "i < nat ww" for j i
  proof -
    from Cons.prems(1) that have l: "j < length g" "i < length (g ! j)"
      by (simp_all add: grid_ok_nth)
    have "(nat (fst c) = j \<and> nat (snd c) = i) = ((int j, int i) = c)"
      using b by (cases c) auto
    with nth2_update [OF l] show ?thesis by simp
  qed
  show ?case
    unfolding fill_cells.simps s bindE_Inr
    apply (rule succeeds_weaken [OF Cons.IH [OF ok1 rest]])
    apply (auto simp: one)
    done
qed

lemma rect_cells_mem:
  "c \<in> set (rect_cells y0 y1 x0 x1) \<longleftrightarrow> y0 \<le> fst c \<and> fst c < y1 \<and> x0 \<le> snd c \<and> snd c < x1"
  by (cases c) (force simp: rect_cells_def py_range_def)

lemma reveal_all_ok:
  assumes "level_ok d"
  shows "succeeds (reveal_all d) (\<lambda>d'. level_ok d'
           \<and> (\<forall>j i. j < nat (h d) \<longrightarrow> i < nat (w d) \<longrightarrow> revealed d' ! j ! i))"
proof -
  from assms have g: "grid_ok (revealed d) (h d) (w d)"
    by (simp add: level_ok_def)
  have c: "\<forall>c \<in> set (rect_cells 0 (h d) 0 (w d)).
             0 \<le> fst c \<and> fst c < h d \<and> 0 \<le> snd c \<and> snd c < w d"
    by (simp add: rect_cells_mem)
  from succeedsD [OF fill_cells_ok [OF g c, of True]] obtain rev where
    r: "fill_cells True (rect_cells 0 (h d) 0 (w d)) (revealed d) = Inr rev"
      "grid_ok rev (h d) (w d)"
      "\<forall>j i. j < nat (h d) \<longrightarrow> i < nat (w d) \<longrightarrow>
         rev ! j ! i = (if (int j, int i) \<in> set (rect_cells 0 (h d) 0 (w d)) then True
                        else revealed d ! j ! i)"
    by blast
  have all: "rev ! j ! i" if "j < nat (h d)" "i < nat (w d)" for j i
  proof -
    from that have "(int j, int i) \<in> set (rect_cells 0 (h d) 0 (w d))"
      by (simp add: rect_cells_mem) linarith
    with r(3) that show ?thesis by simp
  qed
  show ?thesis
    unfolding reveal_all_def r(1)
    using assms r(2) all by (simp add: level_ok_def)
qed

lemma run_vis_ops_ok: "level_ok d \<Longrightarrow> succeeds (run_vis_ops F ops d) level_ok"
proof (induction ops arbitrary: d)
  case Nil
  then show ?case by simp
next
  case (Cons op ops)
  show ?case
  proof (cases op)
    case (Compute_fov px py radius)
    show ?thesis
      unfolding Compute_fov run_vis_ops.simps
      apply (rule succeeds_bind_inv [OF compute_fov_ok [OF Cons.prems]])
      apply (erule Cons.IH)
      done
  next
    case Reveal_all
    show ?thesis
      unfolding Reveal_all run_vis_ops.simps
      apply (rule succeeds_bind_inv [OF reveal_all_ok [OF Cons.prems]])
      apply (erule conjE)
      apply (erule Cons.IH)
      done
  qed
qed

lemma cast_rays_radius_0: "radius \<le> 0 \<Longrightarrow> cast_rays F px py radius as d = Inr d"
  by (induction as) (simp_all add: Let_def)

text \<open>
  C10. \<open>compute_fov\<close> and \<open>reveal_all\<close>, the only operations that write the visibility
  grids of a level, return a \<open>revealed\<close> grid of the same shape that is true wherever it
  was true before; so does every sequence of them: a tile once revealed stays revealed.
  On a level whose grids have \<open>h\<close> rows of \<open>w\<close> cells both operations and every sequence of
  them return without an error, and \<open>reveal_all\<close> leaves every tile revealed.
  \<open>compute_fov\<close> does clear the \<open>visible\<close> grid first: with a radius of 0 or less its
  result is the level with every \<open>visible\<close> flag false and \<open>revealed\<close> untouched.
\<close>

theorem revealed_monotone:
  "(\<forall>d'. compute_fov F d px py radius = Inr d' \<longrightarrow> grid_le (revealed d) (revealed d'))
   \<and> (\<forall>d'. reveal_all d = Inr d' \<longrightarrow> grid_le (revealed d) (revealed d'))
   \<and> (\<forall>d'. run_vis_ops F ops d = Inr d' \<longrightarrow>
         (\<forall>j i. j < length (revealed d) \<longrightarrow> i < length (revealed d ! j) \<longrightarrow>
                revealed d ! j ! i \<longrightarrow> revealed d' ! j ! i))
   \<and> (level_ok d \<longrightarrow>
         (\<exists>d'. compute_fov F d px py radius = Inr d' \<and> level_ok d')
       \<and> (\<exists>d'. reveal_all d = Inr d' \<and> level_ok d'
               \<and> (\<forall>j i. j < nat (h d) \<longrightarrow> i < nat (w d) \<longrightarrow> revealed d' ! j ! i))
       \<and> (\<exists>d'. run_vis_ops F ops d = Inr d' \<and> level_ok d'))
   \<and> (radius \<le> 0 \<longrightarrow>
         compute_fov F d px py radius =
           Inr (d\<lparr>visible := map (map (\<lambda>_. False)) (visible d)\<rparr>))"
proof (intro conjI allI impI)
  fix d' assume "compute_fov F d px py radius = Inr d'"
  from postD [OF compute_fov_post this] show "grid_le (revealed d) (revealed d')" by simp
next
  fix d' assume "reveal_all d = Inr d'"
  from postD [OF reveal_all_post this] show "grid_le (revealed d) (revealed d')" by simp
next
  fix d' j i
  assume "run_vis_ops F ops d = Inr d'" "j < length (revealed d)" "i < length (revealed d ! j)"
    "revealed d ! j ! i"
  from grid_leD [OF postD [OF run_vis_ops_post this(1)] this(2,3,4)]
  show "revealed d' ! j ! i" .
next
  assume "level_ok d"
  from succeedsD [OF compute_fov_ok [OF this]]
  show "\<exists>d'. compute_fov F d px py radius = Inr d' \<and> level_ok d'" .
next
  assume "level_ok d"
  from succeedsD [OF reveal_all_ok [OF this]]
  show "\<exists>d'. reveal_all d = Inr d' \<and> level_ok d'
               \<and> (\<forall>j i. j < nat (h d) \<longrightarrow> i < nat (w d) \<longrightarrow> revealed d' ! j ! i)" .
next
  assume "level_ok d"
  from succeedsD [OF run_vis_ops_ok [OF this]]
  show "\<exists>d'. run_vis_ops F ops d = Inr d' \<and> level_ok d'" .
next
  assume "radius \<le> 0"
  then show "compute_fov F d px py radius =
           Inr (d\<lparr>visible := map (map (\<lambda>_. False)) (visible d)\<rparr>)"
    by (simp add: compute_fov_def cast_rays_radius_0)
qed

lemma level_ok_demo: "level_ok demo_level"
  by (simp add: level_ok_def grid_ok_def demo_level_def)

theorem revealed_monotone_witness:
  "level_ok demo_level
   \<and> 1 < length (revealed demo_level) \<and> 1 < length (revealed demo_level ! 1)
   \<and> revealed demo_level ! 1 ! 1
   \<and> (\<exists>d'. run_vis_ops int_ops [Compute_fov 1 1 6, Reveal_all] demo_level = Inr d'
          \<and> revealed d' ! 1 ! 1)
   \<and> (\<exists>d'. compute_fov int_ops demo_level 1 1 0 = Inr d'
          \<and> grid_le (revealed demo_level) (revealed d')
          \<and> visible d' = replicate 4 (replicate 5 False))
   \<and> (\<exists>d'. reveal_all demo_level = Inr d' \<and> grid_le (revealed demo_level) (revealed d'))"
proof -
  note t = revealed_monotone [of int_ops demo_level 1 1 0 "[Compute_fov 1 1 6, Reveal_all]"]
  have r: "1 < length (revealed demo_level)" "1 < length (revealed demo_level ! 1)"
    "revealed demo_level ! 1 ! 1"
    by (simp_all add: demo_level_def)
  from t level_ok_demo obtain d1 where
    d1: "run_vis_ops int_ops [Compute_fov 1 1 6, Reveal_all] demo_level = Inr d1"
    by blast
  with t r have a: "revealed d1 ! 1 ! 1" by blast
  from t have c: "compute_fov int_ops demo_level 1 1 0 =
        Inr (demo_level\<lparr>visible := map (map (\<lambda>_. False)) (visible demo_level)\<rparr>)"
    by simp
  with t have c2: "grid_le (revealed demo_level)
        (revealed (demo_level\<lparr>visible := map (map (\<lambda>_. False)) (visible demo_level)\<rparr>))"
    by blast
  from t level_ok_demo obtain d3 where d3: "reveal_all demo_level = Inr d3" by blast
  with t have e: "grid_le (revealed demo_level) (revealed d3)" by blast
  have v: "visible (demo_level\<lparr>visible := map (map (\<lambda>_. False)) (visible demo_level)\<rparr>)
             = replicate 4 (replicate 5 False)"
    by (simp add: demo_level_def)
  show ?thesis
    using level_ok_demo r d1 a c c2 d3 e v by auto
qed

subsection \<open>The viewer's tile and walls\<close>

lemma cast_ray_marks_last:
  assumes "level_ok d"
    and "\<forall>j<k. in_grid d (ray_tile F dx dy fx fy j) \<and> tile_at d (ray_tile F dx dy fx fy j) \<noteq> WALL"
    and "in_grid d (ray_tile F dx dy fx fy k)"
  shows "succeeds (cast_ray F dx dy (Suc k) fx fy d)
           (\<lambda>d'. visible d' ! nat (fst (ray_tile F dx dy fx fy k))
                            ! nat (snd (ray_tile F dx dy fx fy k)))"
  using assms
proof (induction k arbitrary: fx fy d)
  case 0
  from "0.prems"(3) have "in_grid d (int_round F fy, int_round F fx)" by simp
  from first_step_marks [OF "0.prems"(1) this, of dx dy 0]
  show ?case
    by (rule succeeds_weaken) simp
next
  case (Suc k)
  let ?c = "(int_round F fy, int_round F fx)"
  from Suc.prems(2) have c0: "in_grid d ?c" "tile_at d ?c \<noteq> WALL"
    by (auto dest: spec [of _ 0])
  have rest: "\<forall>j<k. in_grid (mark_tile d ?c) (ray_tile F dx dy (f_add F fx dx) (f_add F fy dy) j)
       \<and> tile_at (mark_tile d ?c) (ray_tile F dx dy (f_add F fx dx) (f_add F fy dy) j) \<noteq> WALL"
    using Suc.prems(2) by (auto simp: ray_tile_Suc [symmetric])
  have last: "in_grid (mark_tile d ?c) (ray_tile F dx dy (f_add F fx dx) (f_add F fy dy) k)"
    using Suc.prems(3) by (simp add: ray_tile_Suc [symmetric])
  from Suc.IH [OF level_ok_mark [OF Suc.prems(1)] rest last]
  show ?case
    by (simp add: cast_ray_Suc_in [OF Suc.prems(1) c0(1), of dx dy "Suc k"] c0(2)
        ray_tile_Suc [symmetric])
qed

lemma ray_reaches_0: "ray_reaches F d dx dy fx fy 0 = in_grid d (int_round F fy, int_round F fx)"
  by (simp add: ray_reaches_def)

lemma ray_reaches_Suc:
  "ray_reaches F d dx dy fx fy (Suc k) \<longleftrightarrow>
     in_grid d (int_round F fy, int_round F fx)
     \<and> tile_at d (int_round F fy, int_round F fx) \<noteq> WALL
     \<and> ray_reaches F d dx dy (f_add F fx dx) (f_add F fy dy) k"
  unfolding ray_reaches_def All_less_Suc2 ray_tile_Suc ray_tile_0
  by blast

lemma ray_reaches_first:
  "ray_reaches F d dx dy fx fy k \<Longrightarrow> in_grid d (int_round F fy, int_round F fx)"
  by (cases k) (simp_all add: ray_reaches_0 ray_reaches_Suc)

lemma ray_reaches_cong:
  "tiles d' = tiles d \<Longrightarrow> w d' = w d \<Longrightarrow> h d' = h d \<Longrightarrow>
   ray_reaches F d' dx dy fx fy k = ray_reaches F d dx dy fx fy k"
  by (simp add: ray_reaches_def in_grid_def tile_at_def)

lemma mark_tile_visible:
  assumes "level_ok d" and "in_grid d c"
  shows "visible (mark_tile d c) ! j ! i \<longleftrightarrow> visible d ! j ! i \<or> c = (int j, int i)"
proof (cases "c = (int j, int i)")
  case True
  from mark_tile_visible_self [OF assms] True show ?thesis by simp
next
  case False
  from assms(2) have "0 \<le> fst c" "0 \<le> snd c" by (simp_all add: in_grid_def)
  from mark_tile_visible_other [OF False this] False show ?thesis by simp
qed

lemma cast_ray_visible:
  assumes "level_ok d"
  shows "succeeds (cast_ray F dx dy n fx fy d) (\<lambda>d'.
           level_ok d' \<and> tiles d' = tiles d \<and> w d' = w d \<and> h d' = h d
           \<and> (\<forall>j i. visible d' ! j ! i \<longleftrightarrow>
                  visible d ! j ! i
                  \<or> (\<exists>k<n. ray_reaches F d dx dy fx fy k
                          \<and> ray_tile F dx dy fx fy k = (int j, int i))))"
  using assms
proof (induction n arbitrary: fx fy d)
  case 0
  then show ?case by simp
next
  case (Suc n)
  let ?c = "(int_round F fy, int_round F fx)"
  show ?case
  proof (cases "in_grid d ?c")
    case False
    then have "\<not> ray_reaches F d dx dy fx fy k" for k
      by (auto dest: ray_reaches_first)
    with Suc.prems show ?thesis
      by (simp add: cast_ray_Suc_out [OF False])
  next
    case True
    note m = mark_tile_visible [OF Suc.prems True]
    show ?thesis
    proof (cases "tile_at d ?c = WALL")
      case wall: True
      show ?thesis
        unfolding cast_ray_Suc_in [OF Suc.prems True] Ex_less_Suc2
        using wall True level_ok_mark [OF Suc.prems]
        by (auto simp: m ray_reaches_0 ray_reaches_Suc)
    next
      case free: False
      have eq: "ray_reaches F (mark_tile d ?c) dx dy fx' fy' k = ray_reaches F d dx dy fx' fy' k"
        for fx' fy' k
        by (rule ray_reaches_cong) simp_all
      show ?thesis
        unfolding cast_ray_Suc_in [OF Suc.prems True] Ex_less_Suc2
        apply (simp only: free if_False)
        apply (rule succeeds_weaken [OF Suc.IH [OF level_ok_mark [OF Suc.prems]]])
        using free True
        apply (auto simp: m eq ray_reaches_0 ray_reaches_Suc ray_tile_Suc)
        done
    qed
  qed
qed

lemma cast_rays_visible:
  assumes "level_ok d"
  shows "succeeds (cast_rays F px py radius as d) (\<lambda>d'.
           level_ok d' \<and> tiles d' = tiles d \<and> w d' = w d \<and> h d' = h d
           \<and> (\<forall>j i. visible d' ! j ! i \<longleftrightarrow>
                  visible d ! j ! i
                  \<or> (\<exists>a \<in> set as. \<exists>k<nat radius.
                        ray_reaches F d (f_cos F (angle_of F a)) (f_sin F (angle_of F a))
                          (to_float F px) (to_float F py) k
                        \<and> ray_tile F (f_cos F (angle_of F a)) (f_sin F (angle_of F a))
                            (to_float F px) (to_float F py) k = (int j, int i))))"
  using assms
proof (induction as arbitrary: d)
  case Nil
  then show ?case by simp
next
  case (Cons a as)
  show ?case
    unfolding cast_rays.simps
    apply (simp only: Let_def)
    apply (rule succeeds_bind_inv [OF cast_ray_visible [OF Cons.prems]])
    apply (elim conjE)
    subgoal premises p for d1
    proof -
      have eq: "ray_reaches F d1 dx dy fx fy k = ray_reaches F d dx dy fx fy k" for dx dy fx fy k
        by (rule ray_reaches_cong [OF p(3,4,5)])
      show ?thesis
        apply (rule succeeds_weaken [OF Cons.IH [OF p(2)]])
        using p(3,4,5,6) apply (auto simp: eq)
        done
    qed
    done
qed

lemma clear_nth:
  "j < length g \<Longrightarrow> i < length (g ! j) \<Longrightarrow> \<not> map (map (\<lambda>_. False)) g ! j ! i"
  by simp

lemma compute_fov_visible:
  assumes "level_ok d"
  shows "succeeds (compute_fov F d px py radius) (\<lambda>d'.
           level_ok d' \<and> tiles d' = tiles d \<and> w d' = w d \<and> h d' = h d
           \<and> (\<forall>j<nat (h d). \<forall>i<nat (w d).
                 visible d' ! j ! i \<longleftrightarrow> lit F d px py radius (int j, int i)))"
proof -
  let ?d0 = "d\<lparr>visible := map (map (\<lambda>_. False)) (visible d)\<rparr>"
  have ok0: "level_ok ?d0"
    using assms by (simp add: level_ok_def grid_ok_clear)
  have eq: "ray_reaches F ?d0 dx dy fx fy k = ray_reaches F d dx dy fx fy k" for dx dy fx fy k
    by (rule ray_reaches_cong) simp_all
  have dark: "\<not> map (map (\<lambda>_. False)) (visible d) ! j ! i"
    if "j < nat (h d)" "i < nat (w d)" for j i
  proof -
    from assms have g: "grid_ok (visible d) (h d) (w d)" by (simp add: level_ok_def)
    from that g have "j < length (visible d)" by (simp add: grid_ok_def)
    moreover from this g that have "i < length (visible d ! j)"
      by (simp add: grid_ok_def)
    ultimately show ?thesis by simp
  qed
  show ?thesis
    unfolding compute_fov_def
    apply (rule succeeds_weaken [OF cast_rays_visible [OF ok0]])
    apply (simp add: eq lit_def dark)
    apply (simp add: Bex_def)
    done
qed

text \<open>
  C8. On a level whose grids have \<open>h\<close> rows of \<open>w\<close> cells, \<open>compute_fov\<close> returns, and
  leaves the tiles as they are. In the grid it returns, a tile is visible exactly if
  one of the 360 rays looks at it in one of its \<open>radius\<close> steps with every earlier tile
  of that ray inside the grid and not a wall (\<open>lit\<close>): nothing is visible that lies on
  its rays only behind a wall or behind the edge of the grid. With a radius of at least
  1 and a viewer tile inside the grid, the viewer's tile is visible (the float
  operations are parameters; the one fact used is that \<open>float\<close> and \<open>round\<close> give back
  the viewer's integer coordinates). A single ray whose tiles \<open>0..k-1\<close> are inside the
  grid and not walls, and whose tile \<open>k\<close> is a wall or outside the grid, does the same
  for every number of steps \<open>n > k\<close> as for \<open>k + 1\<close> steps: it marks the wall tile, and
  the \<open>visible\<close> flag of every tile other than the ray's tiles \<open>0..k\<close> is as before the
  ray, so nothing behind the wall is marked by this ray.
\<close>

theorem fov_viewer_and_walls:
  assumes "level_ok d"
  shows "(\<exists>d'. compute_fov F d px py radius = Inr d' \<and> level_ok d' \<and> tiles d' = tiles d
            \<and> (\<forall>j<nat (h d). \<forall>i<nat (w d).
                  visible d' ! j ! i \<longleftrightarrow> lit F d px py radius (int j, int i))
            \<and> (1 \<le> radius \<longrightarrow> in_grid d (py, px) \<longrightarrow>
                 int_round F (to_float F px) = px \<longrightarrow> int_round F (to_float F py) = py \<longrightarrow>
                   visible d' ! nat py ! nat px))
     \<and> (\<forall>k n. k < n \<longrightarrow>
           (\<forall>j<k. in_grid d (ray_tile F dx dy fx fy j)
                  \<and> tile_at d (ray_tile F dx dy fx fy j) \<noteq> WALL) \<longrightarrow>
           (\<not> in_grid d (ray_tile F dx dy fx fy k)
            \<or> tile_at d (ray_tile F dx dy fx fy k) = WALL) \<longrightarrow>
           (\<exists>d'. cast_ray F dx dy n fx fy d = Inr d'
              \<and> cast_ray F dx dy (Suc k) fx fy d = Inr d'
              \<and> (in_grid d (ray_tile F dx dy fx fy k) \<longrightarrow>
                   visible d' ! nat (fst (ray_tile F dx dy fx fy k))
                              ! nat (snd (ray_tile F dx dy fx fy k)))
              \<and> (\<forall>j i. (\<forall>m\<le>k. ray_tile F dx dy fx fy m \<noteq> (int j, int i)) \<longrightarrow>
                      visible d' ! j ! i = visible d ! j ! i)))"
proof (intro conjI allI impI)
  from succeedsD [OF compute_fov_visible [OF assms, of F px py radius]] obtain d' where
    d': "compute_fov F d px py radius = Inr d'" "level_ok d'" "tiles d' = tiles d"
      "\<forall>j<nat (h d). \<forall>i<nat (w d).
                  visible d' ! j ! i \<longleftrightarrow> lit F d px py radius (int j, int i)"
    by blast
  have v: "visible d' ! nat py ! nat px"
    if "1 \<le> radius" "in_grid d (py, px)" "int_round F (to_float F px) = px"
      "int_round F (to_float F py) = py"
    using succeedsD [OF compute_fov_viewer [OF assms that]] d'(1) by simp
  show "\<exists>d'. compute_fov F d px py radius = Inr d' \<and> level_ok d' \<and> tiles d' = tiles d
            \<and> (\<forall>j<nat (h d). \<forall>i<nat (w d).
                  visible d' ! j ! i \<longleftrightarrow> lit F d px py radius (int j, int i))
            \<and> (1 \<le> radius \<longrightarrow> in_grid d (py, px) \<longrightarrow>
                 int_round F (to_float F px) = px \<longrightarrow> int_round F (to_float F py) = py \<longrightarrow>
                   visible d' ! nat py ! nat px)"
    using d' v by (intro exI [of _ d']) simp
next
  fix k n
  assume kn: "k < n"
    and pre: "\<forall>j<k. in_grid d (ray_tile F dx dy fx fy j)
                  \<and> tile_at d (ray_tile F dx dy fx fy j) \<noteq> WALL"
    and stop: "\<not> in_grid d (ray_tile F dx dy fx fy k)
            \<or> tile_at d (ray_tile F dx dy fx fy k) = WALL"
  have eq: "cast_ray F dx dy n fx fy d = cast_ray F dx dy (Suc k) fx fy d"
    by (rule cast_ray_stops [OF assms kn pre stop])
  from succeedsD [OF cast_ray_ok [OF assms, of F dx dy "Suc k" fx fy]] obtain d' where
    d': "cast_ray F dx dy (Suc k) fx fy d = Inr d'"
    by blast
  have m: "visible d' ! nat (fst (ray_tile F dx dy fx fy k)) ! nat (snd (ray_tile F dx dy fx fy k))"
    if "in_grid d (ray_tile F dx dy fx fy k)"
    using succeedsD [OF cast_ray_marks_last [OF assms pre that]] d' by simp
  have c: "\<forall>j i. (\<forall>m\<le>k. ray_tile F dx dy fx fy m \<noteq> (int j, int i)) \<longrightarrow>
                      visible d' ! j ! i = visible d ! j ! i"
    using postD [OF cast_ray_changes [OF assms] d'] by (simp add: less_Suc_eq_le)
  show "\<exists>d'. cast_ray F dx dy n fx fy d = Inr d'
              \<and> cast_ray F dx dy (Suc k) fx fy d = Inr d'
              \<and> (in_grid d (ray_tile F dx dy fx fy k) \<longrightarrow>
                   visible d' ! nat (fst (ray_tile F dx dy fx fy k))
                              ! nat (snd (ray_tile F dx dy fx fy k)))
              \<and> (\<forall>j i. (\<forall>m\<le>k. ray_tile F dx dy fx fy m \<noteq> (int j, int i)) \<longrightarrow>
                      visible d' ! j ! i = visible d ! j ! i)"
    using eq d' m c by (intro exI [of _ d']) simp
qed

lemma ray_pos_int_ops: "ray_pos int_ops dx k fx = fx + int k * dx"
  by (induction k arbitrary: fx) (simp_all add: int_ops_def algebra_simps)

lemma ray_tile_east: "ray_tile int_ops 1 0 0 0 k = (0, int k)"
  by (simp add: ray_tile_def ray_pos_int_ops) (simp add: int_ops_def)

lemma corridor_free:
  "in_grid corridor_level (0, int j) \<and> tile_at corridor_level (0, int j) \<noteq> WALL
     \<longleftrightarrow> j < 2 \<or> (2 < j \<and> j < 6)"
proof (cases "j < 6")
  case False
  then show ?thesis by (simp add: in_grid_def corridor_level_def)
next
  case True
  then have "j = 0 \<or> j = 1 \<or> j = 2 \<or> j = 3 \<or> j = 4 \<or> j = 5" by arith
  then show ?thesis
    by (elim disjE) (simp_all add: in_grid_def tile_at_def corridor_level_def WALL_def FLOOR_def)
qed

lemma lit_corridor: "lit int_ops corridor_level 0 0 6 (0, int i) \<longleftrightarrow> i \<le> 2"
proof -
  have f: "f_cos int_ops a = 1" "f_sin int_ops a = 0" "to_float int_ops 0 = 0" for a
    by (simp_all add: int_ops_def)
  have r: "ray_reaches int_ops corridor_level 1 0 0 0 k \<longleftrightarrow> k \<le> 2" for k
  proof
    assume a: "ray_reaches int_ops corridor_level 1 0 0 0 k"
    show "k \<le> 2"
    proof (rule ccontr)
      assume "\<not> k \<le> 2"
      then have "2 < k" by simp
      with a have "in_grid corridor_level (0, int 2) \<and> tile_at corridor_level (0, int 2) \<noteq> WALL"
        unfolding ray_reaches_def ray_tile_east by blast
      then show False by (simp only: corridor_free) simp
    qed
  next
    assume "k \<le> 2"
    then have "\<forall>j<k. in_grid corridor_level (0, int j) \<and> tile_at corridor_level (0, int j) \<noteq> WALL"
      by (simp add: corridor_free)
    moreover from \<open>k \<le> 2\<close> have "in_grid corridor_level (0, int k)"
      by (simp add: in_grid_def corridor_level_def)
    ultimately show "ray_reaches int_ops corridor_level 1 0 0 0 k"
      unfolding ray_reaches_def ray_tile_east by simp
  qed
  have "\<exists>a::nat. a < 360"
    by (rule exI [of _ 0]) simp
  then show ?thesis
    unfolding lit_def f ray_tile_east r
    by auto
qed

theorem fov_viewer_and_walls_witness:
  "level_ok corridor_level \<and> in_grid corridor_level (0, 0)
   \<and> int_round int_ops (to_float int_ops 0) = 0
   \<and> (\<exists>d'. compute_fov int_ops corridor_level 0 0 6 = Inr d'
          \<and> tiles d' = tiles corridor_level
          \<and> visible d' ! 0 ! 0 \<and> visible d' ! 0 ! 1 \<and> visible d' ! 0 ! 2
          \<and> \<not> visible d' ! 0 ! 3 \<and> \<not> visible d' ! 0 ! 4 \<and> \<not> visible d' ! 0 ! 5)
   \<and> in_grid corridor_level (ray_tile int_ops 1 0 0 0 2)
   \<and> tile_at corridor_level (ray_tile int_ops 1 0 0 0 2) = WALL
   \<and> (\<exists>d'. cast_ray int_ops 1 0 6 0 0 corridor_level = Inr d'
          \<and> cast_ray int_ops 1 0 3 0 0 corridor_level = Inr d'
          \<and> visible d' ! 0 ! 2
          \<and> \<not> visible d' ! 0 ! 3 \<and> \<not> visible d' ! 0 ! 4 \<and> \<not> visible d' ! 0 ! 5)"
proof -
  have ok: "level_ok corridor_level"
    by (simp add: level_ok_def grid_ok_def corridor_level_def)
  have ig: "in_grid corridor_level (0, 0)"
    by (simp add: in_grid_def corridor_level_def)
  have rd: "int_round int_ops (to_float int_ops 0) = 0"
    by (simp add: int_ops_def)
  note t = fov_viewer_and_walls [OF ok, of int_ops 0 0 6 1 0 0 0]
  from t obtain e where
    e: "compute_fov int_ops corridor_level 0 0 6 = Inr e" "tiles e = tiles corridor_level"
      "\<forall>j<nat (h corridor_level). \<forall>i<nat (w corridor_level).
          visible e ! j ! i \<longleftrightarrow> lit int_ops corridor_level 0 0 6 (int j, int i)"
      "1 \<le> (6::int) \<longrightarrow> in_grid corridor_level (0, 0) \<longrightarrow>
         int_round int_ops (to_float int_ops 0) = 0 \<longrightarrow> int_round int_ops (to_float int_ops 0) = 0 \<longrightarrow>
           visible e ! nat 0 ! nat 0"
    by blast
  have vis: "visible e ! 0 ! i \<longleftrightarrow> i \<le> 2" if "i < 6" for i
  proof -
    from that have "0 < nat (h corridor_level)" "i < nat (w corridor_level)"
      by (simp_all add: corridor_level_def)
    with e(3) have "visible e ! 0 ! i \<longleftrightarrow> lit int_ops corridor_level 0 0 6 (int 0, int i)"
      by blast
    then show ?thesis by (simp add: lit_corridor)
  qed
  from e(4) ig rd have v0: "visible e ! 0 ! 0" by simp
  have a: "\<exists>d'. compute_fov int_ops corridor_level 0 0 6 = Inr d'
          \<and> tiles d' = tiles corridor_level
          \<and> visible d' ! 0 ! 0 \<and> visible d' ! 0 ! 1 \<and> visible d' ! 0 ! 2
          \<and> \<not> visible d' ! 0 ! 3 \<and> \<not> visible d' ! 0 ! 4 \<and> \<not> visible d' ! 0 ! 5"
    using e(1,2) v0 vis [of 1] vis [of 2] vis [of 3] vis [of 4] vis [of 5]
    by (intro exI [of _ e]) simp
  have pre: "\<forall>j<2. in_grid corridor_level (ray_tile int_ops 1 0 0 0 j)
                  \<and> tile_at corridor_level (ray_tile int_ops 1 0 0 0 j) \<noteq> WALL"
    by (auto simp: ray_tile_east less_Suc_eq numeral_2_eq_2 in_grid_def tile_at_def
        corridor_level_def WALL_def FLOOR_def)
  have w2: "in_grid corridor_level (ray_tile int_ops 1 0 0 0 2)"
    "tile_at corridor_level (ray_tile int_ops 1 0 0 0 2) = WALL"
    by (simp_all add: ray_tile_east in_grid_def tile_at_def corridor_level_def)
  have lt: "(2::nat) < 6" by simp
  from t lt pre w2 obtain d' where
    d': "cast_ray int_ops 1 0 6 0 0 corridor_level = Inr d'"
      "cast_ray int_ops 1 0 (Suc 2) 0 0 corridor_level = Inr d'"
      "visible d' ! nat (fst (ray_tile int_ops 1 0 0 0 2)) ! nat (snd (ray_tile int_ops 1 0 0 0 2))"
      "\<forall>j i. (\<forall>m\<le>2. ray_tile int_ops 1 0 0 0 m \<noteq> (int j, int i)) \<longrightarrow>
                      visible d' ! j ! i = visible corridor_level ! j ! i"
    by blast
  have beyond: "\<not> visible d' ! 0 ! i" if "3 \<le> i" "i < 6" for i
  proof -
    from that have "\<forall>m\<le>2. ray_tile int_ops 1 0 0 0 m \<noteq> (int 0, int i)"
      by (auto simp: ray_tile_east)
    with d'(4) have "visible d' ! 0 ! i = visible corridor_level ! 0 ! i" by blast
    with that show ?thesis by (simp add: corridor_level_def)
  qed
  have three: "Suc 2 = 3" by simp
  from d'(3) have v2: "visible d' ! 0 ! 2" by (simp add: ray_tile_east)
  have b: "\<exists>d'. cast_ray int_ops 1 0 6 0 0 corridor_level = Inr d'
          \<and> cast_ray int_ops 1 0 3 0 0 corridor_level = Inr d'
          \<and> visible d' ! 0 ! 2
          \<and> \<not> visible d' ! 0 ! 3 \<and> \<not> visible d' ! 0 ! 4 \<and> \<not> visible d' ! 0 ! 5"
    using d'(1) d'(2) [unfolded three] v2 beyond [of 3] beyond [of 4] beyond [of 5]
    by (intro exI [of _ d']) simp
  show ?thesis
    using ok ig rd a w2 b by (intro conjI)
qed

subsection \<open>Level generation\<close>

lemma succeeds_LetI: "succeeds (f e) Q \<Longrightarrow> succeeds (Let e f) Q"
  by (simp add: Let_def)

lemma succeeds_case_prodI:
  "(\<And>a b. pr = (a, b) \<Longrightarrow> succeeds (f a b) Q) \<Longrightarrow> succeeds (case pr of (a, b) \<Rightarrow> f a b) Q"
  by (cases pr) simp

lemma randint_bind:
  assumes "a \<le> b" and "\<And>v r'. a \<le> v \<Longrightarrow> v \<le> b \<Longrightarrow> succeeds (f v r') Q"
  shows "succeeds (bindE (randint a b r) (\<lambda>(v, r'). f v r')) Q"
proof -
  from randint_range [OF assms(1), of r] obtain v where
    "a \<le> v" "v \<le> b" "randint a b r = Inr (v, next_rng r)"
    by blast
  with assms(2) [of v "next_rng r"] show ?thesis by simp
qed

lemma choice_bind:
  assumes "xs \<noteq> []" and "\<And>v r'. v \<in> set xs \<Longrightarrow> succeeds (f v r') Q"
  shows "succeeds (bindE (choice xs r) (\<lambda>(v, r'). f v r')) Q"
proof -
  have "nat (r 0 mod int (length xs)) < length xs"
    using assms(1) by (simp add: nat_less_iff)
  then have "xs ! nat (r 0 mod int (length xs)) \<in> set xs"
    by (rule nth_mem)
  with assms show ?thesis by (simp add: choice_def)
qed

lemma room_ok_center:
  assumes "room_ok ww hh (rx, ry, rw, rh)"
  shows "0 \<le> rx + rw div 2" "rx + rw div 2 < ww" "0 \<le> ry + rh div 2" "ry + rh div 2 < hh"
  using assms by (auto simp: room_ok_def)

lemma room_ok_interior:
  assumes "room_ok ww hh (rx, ry, rw, rh)"
  shows "rx + 1 \<le> rx + rw - 2" "ry + 1 \<le> ry + rh - 2"
    "\<And>v. rx + 1 \<le> v \<Longrightarrow> v \<le> rx + rw - 2 \<Longrightarrow> 0 \<le> v \<and> v < ww"
    "\<And>v. ry + 1 \<le> v \<Longrightarrow> v \<le> ry + rh - 2 \<Longrightarrow> 0 \<le> v \<and> v < hh"
  using assms by (auto simp: room_ok_def)

lemma carve_room_ok:
  assumes "level_ok d" and "room_ok (w d) (h d) room"
  shows "succeeds (carve_room d room)
           (\<lambda>d'. level_ok d' \<and> same_plan d d' \<and> monsters d' = monsters d
                  \<and> items d' = items d \<and> merchant d' = merchant d)"
proof -
  obtain rx ry rw rh where room: "room = (rx, ry, rw, rh)"
    by (cases room) auto
  from assms(1) have g: "grid_ok (tiles d) (h d) (w d)"
    by (simp add: level_ok_def)
  have c: "\<forall>c \<in> set (rect_cells ry (ry + rh) rx (rx + rw)).
             0 \<le> fst c \<and> fst c < h d \<and> 0 \<le> snd c \<and> snd c < w d"
    using assms(2) unfolding room by (auto simp: rect_cells_mem room_ok_def)
  show ?thesis
    unfolding carve_room_def room prod.case
    apply (rule succeeds_bind_inv [OF fill_cells_ok [OF g c]])
    using assms(1) apply (simp add: level_ok_def same_plan_def)
    done
qed

lemma carve_h_ok:
  assumes "grid_ok t hh ww" and "0 \<le> cy" "cy < hh" and "0 \<le> cx" "cx < ww" and "0 \<le> x2" "x2 < ww"
  shows "succeeds (carve_h t cy cx x2) (\<lambda>t'. grid_ok t' hh ww)"
  using assms
proof (induction t cy cx x2 rule: carve_h.induct)
  case (1 t cy cx x2)
  show ?case
  proof (cases "cx = x2")
    case True
    with "1.prems"(1) show ?thesis by (subst carve_h.simps) simp
  next
    case False
    let ?t1 = "t[nat cy := (t ! nat cy)[nat cx := FLOOR]]"
    have s: "py_set2 t cy cx FLOOR = Inr ?t1"
      by (rule py_set2_in [OF "1.prems"(2) grid_ok_bounds(1) [OF "1.prems"(1-5)]
            "1.prems"(4) grid_ok_bounds(2) [OF "1.prems"(1-5)]])
    have ok1: "grid_ok ?t1 hh ww"
      by (rule grid_ok_update [OF "1.prems"(1)])
    have nx: "0 \<le> cx + (if x2 > cx then 1 else - 1)" "cx + (if x2 > cx then 1 else - 1) < ww"
      using False "1.prems" by auto
    from "1.IH" [OF False s ok1 "1.prems"(2,3) nx "1.prems"(6,7)]
    show ?thesis
      using False by (subst carve_h.simps) (simp add: s)
  qed
qed

lemma carve_v_ok:
  assumes "grid_ok t hh ww" and "0 \<le> cx" "cx < ww" and "0 \<le> cy" "cy < hh" and "0 \<le> y2" "y2 < hh"
  shows "succeeds (carve_v t cx cy y2) (\<lambda>t'. grid_ok t' hh ww)"
  using assms
proof (induction t cx cy y2 rule: carve_v.induct)
  case (1 t cx cy y2)
  show ?case
  proof (cases "cy = y2")
    case True
    with "1.prems"(1) show ?thesis by (subst carve_v.simps) simp
  next
    case False
    let ?t1 = "t[nat cy := (t ! nat cy)[nat cx := FLOOR]]"
    have s: "py_set2 t cy cx FLOOR = Inr ?t1"
      by (rule py_set2_in [OF "1.prems"(4) grid_ok_bounds(1) [OF "1.prems"(1,4,5,2,3)]
            "1.prems"(2) grid_ok_bounds(2) [OF "1.prems"(1,4,5,2,3)]])
    have ok1: "grid_ok ?t1 hh ww"
      by (rule grid_ok_update [OF "1.prems"(1)])
    have ny: "0 \<le> cy + (if y2 > cy then 1 else - 1)" "cy + (if y2 > cy then 1 else - 1) < hh"
      using False "1.prems" by auto
    from "1.IH" [OF False s ok1 "1.prems"(2,3) ny "1.prems"(6,7)]
    show ?thesis
      using False by (subst carve_v.simps) (simp add: s)
  qed
qed

lemma connect_ok:
  assumes "level_ok d" and "room_ok (w d) (h d) r1" and "room_ok (w d) (h d) r2"
  shows "succeeds (connect d r1 r2)
           (\<lambda>d'. level_ok d' \<and> same_plan d d' \<and> monsters d' = monsters d
                  \<and> items d' = items d \<and> merchant d' = merchant d)"
proof -
  obtain ax ay aw ah where r1: "r1 = (ax, ay, aw, ah)" by (cases r1) auto
  obtain bx "by" bw bh where r2: "r2 = (bx, by, bw, bh)" by (cases r2) auto
  from assms(1) have g: "grid_ok (tiles d) (h d) (w d)"
    by (simp add: level_ok_def)
  note c1 = room_ok_center [OF assms(2) [unfolded r1]]
  note c2 = room_ok_center [OF assms(3) [unfolded r2]]
  show ?thesis
    unfolding connect_def r1 r2 prod.case
    apply (simp only: Let_def)
    apply (rule succeeds_bind_inv [OF carve_h_ok [OF g c1(3,4) c1(1,2) c2(1,2)]])
    apply (rule succeeds_bind_inv [OF carve_v_ok [OF _ c2(1,2) c1(3,4) c2(3,4)]])
     apply assumption
    using assms(1) apply (simp add: level_ok_def same_plan_def)
    done
qed

lemma py_get_last: "xs \<noteq> [] \<Longrightarrow> py_get xs (- 1) = Inr (last xs)"
proof -
  assume ne: "xs \<noteq> []"
  then have "py_index xs (- 1) = Inr (length xs - 1)"
    by (cases xs) (auto simp: py_index_def Let_def nat_diff_distrib)
  with ne show ?thesis by (simp add: py_get_def last_conv_nth)
qed

lemma gen_inv_add_room:
  assumes "level_ok d2" and "w d2 = w d" "h d2 = h d" "depth d2 = depth d" "rooms d2 = rooms d"
    and "gen_inv d" and "room_ok (w d) (h d) room"
  shows "gen_inv (d2\<lparr>rooms := rooms d2 @ [room]\<rparr>)"
  using assms by (auto simp: gen_inv_def level_ok_def)

lemma place_rooms_ok:
  assumes "gen_inv d" and "15 \<le> w d" and "11 \<le> h d"
  shows "succeeds (place_rooms n num d r) (\<lambda>(d', r').
           gen_inv d' \<and> w d' = w d \<and> h d' = h d \<and> depth d' = depth d
           \<and> monsters d' = monsters d \<and> items d' = items d \<and> merchant d' = merchant d
           \<and> stairs_pos d' = stairs_pos d
           \<and> (rooms d \<noteq> [] \<or> 0 < n \<and> 0 < num \<longrightarrow> rooms d' \<noteq> [])
           \<and> int (length (rooms d')) \<le> max (int (length (rooms d))) num)"
  using assms
proof (induction n arbitrary: d r)
  case 0
  then show ?case by simp
next
  case (Suc n)
  note inv = Suc.prems(1)
  from inv have lok: "level_ok d" by (simp add: gen_inv_def)
  show ?case
  proof (cases "int (length (rooms d)) \<ge> num")
    case True
    with Suc.prems show ?thesis by auto
  next
    case False
    have step: "succeeds
          (let room = (rx, ry, rw, rh) in
           if \<not> list_ex (rooms_overlap room) (rooms d) then
             bindE (carve_room d room) (\<lambda>d1.
             bindE (if rooms d1 \<noteq> [] then
                      bindE (py_get (rooms d1) (- 1)) (\<lambda>prev. connect d1 prev room)
                    else Inr d1) (\<lambda>d2.
             place_rooms n num (d2\<lparr>rooms := rooms d2 @ [room]\<rparr>) r4))
           else place_rooms n num d r4)
          (\<lambda>(d', r').
           gen_inv d' \<and> w d' = w d \<and> h d' = h d \<and> depth d' = depth d
           \<and> monsters d' = monsters d \<and> items d' = items d \<and> merchant d' = merchant d
           \<and> stairs_pos d' = stairs_pos d
           \<and> (rooms d \<noteq> [] \<or> 0 < Suc n \<and> 0 < num \<longrightarrow> rooms d' \<noteq> [])
           \<and> int (length (rooms d')) \<le> max (int (length (rooms d))) num)"
      if b: "5 \<le> rw" "rw \<le> 12" "4 \<le> rh" "rh \<le> 8" "1 \<le> rx" "rx \<le> w d - rw - 2"
        "1 \<le> ry" "ry \<le> h d - rh - 2"
      for rx ry rw rh r4
    proof -
      let ?room = "(rx, ry, rw, rh)"
      have rok: "room_ok (w d) (h d) ?room"
        using b by (simp add: room_ok_def)
      show ?thesis
      proof (cases "list_ex (rooms_overlap ?room) (rooms d)")
        case True
        then have ne: "rooms d \<noteq> []" by auto
        show ?thesis
          using True ne
          apply (simp only: Let_def not_True_eq_False if_False)
          apply (rule succeeds_weaken [OF Suc.IH [OF Suc.prems]])
          apply auto
          done
      next
        case nov: False
        have rec: "succeeds (place_rooms n num (d2\<lparr>rooms := rooms d2 @ [?room]\<rparr>) r4)
          (\<lambda>(d', r').
           gen_inv d' \<and> w d' = w d \<and> h d' = h d \<and> depth d' = depth d
           \<and> monsters d' = monsters d \<and> items d' = items d \<and> merchant d' = merchant d
           \<and> stairs_pos d' = stairs_pos d
           \<and> (rooms d \<noteq> [] \<or> 0 < Suc n \<and> 0 < num \<longrightarrow> rooms d' \<noteq> [])
           \<and> int (length (rooms d')) \<le> max (int (length (rooms d))) num)"
          if d2: "level_ok d2" "same_plan d d2" "monsters d2 = monsters d" "items d2 = items d"
            "merchant d2 = merchant d" "stairs_pos d2 = stairs_pos d" for d2
        proof -
          from d2(2) have sp: "w d2 = w d" "h d2 = h d" "depth d2 = depth d" "rooms d2 = rooms d"
            by (simp_all add: same_plan_def)
          let ?d3 = "d2\<lparr>rooms := rooms d2 @ [?room]\<rparr>"
          have inv3: "gen_inv ?d3"
            by (rule gen_inv_add_room [OF d2(1) sp inv rok])
          have wh: "15 \<le> w ?d3" "11 \<le> h ?d3"
            using Suc.prems(2,3) sp by simp_all
          show ?thesis
            apply (rule succeeds_weaken [OF Suc.IH [OF inv3 wh]])
            using False d2(3-6) sp apply auto
            done
        qed
        have carve_frame: "stairs_pos d1 = stairs_pos d" if "carve_room d ?room = Inr d1" for d1
          using that by (auto simp: carve_room_def bindE_eq_Inr)
        have connect_frame: "stairs_pos d2 = stairs_pos d1" if "connect d1 prev ?room = Inr d2"
          for d1 d2 prev
          using that by (cases prev) (auto simp: connect_def bindE_eq_Inr Let_def)
        show ?thesis
          using nov
          apply (simp only: Let_def not_False_eq_True if_True)
          apply (rule succeeds_bind_inv [OF carve_room_ok [OF lok rok]])
          apply (elim conjE)
          subgoal premises p for d1
          proof -
            from p(4) have sp1: "w d1 = w d" "h d1 = h d" "depth d1 = depth d" "rooms d1 = rooms d"
              by (simp_all add: same_plan_def)
            have st1: "stairs_pos d1 = stairs_pos d"
              by (rule carve_frame [OF p(2)])
            show ?thesis
            proof (cases "rooms d1 = []")
              case True
              then have c: "(rooms d1 \<noteq> []) = False" by simp
              show ?thesis
                unfolding c if_False bindE_Inr
                by (rule rec [OF p(3,4,5,6,7) st1])
            next
              case False
              have prev_ok: "room_ok (w d1) (h d1) (last (rooms d1))"
                using False inv sp1 by (simp add: gen_inv_def)
              have rok1: "room_ok (w d1) (h d1) ?room"
                using rok sp1 by simp
              from False have c: "(rooms d1 \<noteq> []) = True" by simp
              show ?thesis
                unfolding c if_True py_get_last [OF False] bindE_Inr
                apply (rule succeeds_bind_inv [OF connect_ok [OF p(3) prev_ok rok1]])
                apply (elim conjE)
                apply (rule rec)
                     apply assumption
                using p(4) apply (simp add: same_plan_def)
                using p(5) apply simp
                using p(6) apply simp
                using p(7) apply simp
                using st1 apply (simp add: connect_frame)
                done
            qed
          qed
          done
      qed
    qed
    have r1: "(5::int) \<le> 12" "(4::int) \<le> 8" by simp_all
    show ?thesis
      unfolding place_rooms.simps
      using False
      apply (simp only: if_False)
      apply (rule randint_bind [OF r1(1)])
      apply (rule randint_bind [OF r1(2)])
      apply (rule randint_bind)
      using Suc.prems(2) apply linarith
      apply (rule randint_bind)
      using Suc.prems(3) apply linarith
      apply (rule step)
             apply assumption+
      done
  qed
qed

lemma py_get2_bind:
  assumes "grid_ok g hh ww" and "0 \<le> y0" "y0 < hh" "0 \<le> x0" "x0 < ww"
    and "\<And>t. succeeds (f t) Q"
  shows "succeeds (bindE (py_get2 g y0 x0) f) Q"
  using py_get2_in [OF assms(2) grid_ok_bounds(1) [OF assms(1-5)] assms(4)
      grid_ok_bounds(2) [OF assms(1-5)]] assms(6)
  by simp

lemma py_set2_bind:
  assumes "grid_ok g hh ww" and "0 \<le> y0" "y0 < hh" "0 \<le> x0" "x0 < ww"
    and "\<And>g'. grid_ok g' hh ww \<Longrightarrow> succeeds (f g') Q"
  shows "succeeds (bindE (py_set2 g y0 x0 v) f) Q"
  using py_set2_in [OF assms(2) grid_ok_bounds(1) [OF assms(1-5)] assms(4)
      grid_ok_bounds(2) [OF assms(1-5)], of v] assms(6) [OF grid_ok_update [OF assms(1)]]
  by simp

lemma py_get_bind:
  assumes "0 \<le> i" "i < int (length xs)" and "succeeds (f (xs ! nat i)) Q"
  shows "succeeds (bindE (py_get xs i) f) Q"
  using assms by simp

lemma gen_inv_level_ok: "gen_inv d \<Longrightarrow> level_ok d"
  by (simp add: gen_inv_def)

lemma gen_inv_tiles: "gen_inv d \<Longrightarrow> grid_ok (tiles d) (h d) (w d)"
  by (simp add: gen_inv_def level_ok_def)

lemma gen_inv_room: "gen_inv d \<Longrightarrow> room \<in> set (rooms d) \<Longrightarrow> room_ok (w d) (h d) room"
  by (simp add: gen_inv_def)

lemma place_stairs_ok:
  assumes "gen_inv d" and "rooms d \<noteq> []"
  shows "succeeds (place_stairs d) (\<lambda>d'. gen_inv d' \<and> same_plan d d'
           \<and> monsters d' = monsters d \<and> items d' = items d \<and> merchant d' = merchant d)"
proof -
  obtain rx ry rw rh where lr: "last (rooms d) = (rx, ry, rw, rh)"
    by (cases "last (rooms d)") auto
  have "room_ok (w d) (h d) (last (rooms d))"
    using assms by (simp add: gen_inv_def)
  note c = room_ok_center [OF this [unfolded lr]]
  show ?thesis
    unfolding place_stairs_def py_get_last [OF assms(2)] bindE_Inr lr prod.case
    apply (simp only: Let_def)
    apply (rule py_set2_bind [OF gen_inv_tiles [OF assms(1)] c(3,4,1,2)])
    using assms(1) apply (simp add: gen_inv_def level_ok_def same_plan_def)
    done
qed

lemma spawn_monster_ok:
  assumes "gen_inv d" and "room_ok (w d) (h d) room"
  shows "succeeds (spawn_monster F room d r) (\<lambda>(d', r'). gen_inv d' \<and> same_plan d d'
           \<and> items d' = items d \<and> merchant d' = merchant d)"
proof -
  obtain rx ry rw rh where room: "room = (rx, ry, rw, rh)"
    by (cases room) auto
  note i = room_ok_interior [OF assms(2) [unfolded room]]
  from assms(1) have dep: "0 \<le> depth d" by (simp add: gen_inv_def)
  have tier: "0 \<le> min k (int (length MONSTER_DEFS) - 1)"
    "min k (int (length MONSTER_DEFS) - 1) < int (length MONSTER_DEFS)" if "0 \<le> k" for k
    using that by (simp_all add: MONSTER_DEFS_def)
  show ?thesis
    unfolding spawn_monster_def room prod.case
    apply (rule randint_bind [OF i(1)])
    apply (rule randint_bind [OF i(2)])
    apply (rule py_get2_bind [OF gen_inv_tiles [OF assms(1)]])
        apply (simp add: i(4))
       apply (simp add: i(4))
      apply (simp add: i(3))
     apply (simp add: i(3))
    apply (rule succeeds_ifI)
     apply (rule randint_bind [OF dep])
     apply (simp only: Let_def)
     apply (rule py_get_bind)
       apply (erule tier(1))
      apply (erule tier(2))
    using assms(1) apply (simp add: gen_inv_def level_ok_def same_plan_def split: prod.split)
    using assms(1) apply (simp add: same_plan_def)
    done
qed

lemma spawn_in_room_ok:
  assumes "gen_inv d" and "room_ok (w d) (h d) room"
  shows "succeeds (spawn_in_room F n room d r) (\<lambda>(d', r'). gen_inv d' \<and> same_plan d d'
           \<and> items d' = items d \<and> merchant d' = merchant d)"
  using assms
proof (induction n arbitrary: d r)
  case 0
  then show ?case by (simp add: same_plan_def)
next
  case (Suc n)
  show ?case
    unfolding spawn_in_room.simps
    apply (rule succeeds_bind_inv [OF spawn_monster_ok [OF Suc.prems]])
    apply (clarsimp simp only: prod.case)
    subgoal premises p for d1 r1
    proof -
      from p(3) Suc.prems(2) have "room_ok (w d1) (h d1) room"
        by (simp add: same_plan_def)
      from Suc.IH [OF p(2) this] show ?thesis
        apply (rule succeeds_weaken)
        using p(3,4,5) apply (auto simp: same_plan_def)
        done
    qed
    done
qed

lemma place_monsters_ok:
  assumes "gen_inv d" and "\<forall>room \<in> set rs. room_ok (w d) (h d) room"
  shows "succeeds (place_monsters F rs d r) (\<lambda>(d', r'). gen_inv d' \<and> same_plan d d'
           \<and> items d' = items d \<and> merchant d' = merchant d)"
  using assms
proof (induction rs arbitrary: d r)
  case Nil
  then show ?case by (simp add: same_plan_def)
next
  case (Cons room rs)
  from Cons.prems(1) have dep: "0 \<le> 2 + depth d div 2"
    by (simp add: gen_inv_def)
  from Cons.prems(2) have rok: "room_ok (w d) (h d) room" by simp
  show ?case
    unfolding place_monsters.simps
    apply (rule randint_bind [OF dep])
    apply (rule succeeds_bind_inv [OF spawn_in_room_ok [OF Cons.prems(1) rok]])
    apply (clarsimp simp only: prod.case)
    subgoal premises p for v r' d1 r1
    proof -
      from p(5) Cons.prems(2) have "\<forall>room \<in> set rs. room_ok (w d1) (h d1) room"
        by (simp add: same_plan_def)
      from Cons.IH [OF p(4) this] show ?thesis
        apply (rule succeeds_weaken)
        using p(5,6,7) apply (auto simp: same_plan_def)
        done
    qed
    done
qed

lemma place_item_ok:
  assumes "gen_inv d"
  shows "succeeds (place_item d x0 y0 r) (\<lambda>(d', r'). gen_inv d' \<and> same_plan d d'
           \<and> merchant d' = merchant d)"
proof -
  from assms have dep: "0 \<le> depth d" "5 \<le> 15 + depth d * 5"
    by (simp_all add: gen_inv_def)
  have tier: "0 \<le> min k (int (length WEAPON_NAMES) - 1)"
    "min k (int (length WEAPON_NAMES) - 1) < int (length WEAPON_NAMES)" if "0 \<le> k" for k
    using that by (simp_all add: WEAPON_NAMES_def)
  have ne: "SCROLL_EFFECTS \<noteq> []" by (simp add: SCROLL_EFFECTS_def)
  have r: "(8::int) \<le> 20" by simp
  have fin: "gen_inv (d\<lparr>items := its\<rparr>) \<and> same_plan d (d\<lparr>items := its\<rparr>)
      \<and> merchant (d\<lparr>items := its\<rparr>) = merchant d" for its
    using assms by (simp add: gen_inv_def level_ok_def same_plan_def)
  show ?thesis
    unfolding place_item_def
    apply (rule succeeds_case_prodI)
    apply (rule succeeds_ifI)
     apply (rule randint_bind [OF r])
     apply (simp add: fin)
    apply (rule succeeds_ifI)
     apply (rule randint_bind [OF dep(1)])
     apply (simp only: Let_def)
     apply (rule py_get_bind)
       apply (erule tier(1))
      apply (erule tier(2))
     apply (simp add: fin split: prod.split)
    apply (rule succeeds_ifI)
     apply (rule randint_bind [OF dep(2)])
     apply (simp add: fin)
    apply (rule choice_bind [OF ne])
    apply (simp add: fin)
    done
qed

lemma place_items_ok:
  assumes "gen_inv d" and "\<forall>room \<in> set rs. room_ok (w d) (h d) room"
  shows "succeeds (place_items rs d r) (\<lambda>(d', r'). gen_inv d' \<and> same_plan d d'
           \<and> merchant d' = merchant d)"
  using assms
proof (induction rs arbitrary: d r)
  case Nil
  then show ?case by (simp add: same_plan_def)
next
  case (Cons room rs)
  obtain rx ry rw rh where room: "room = (rx, ry, rw, rh)"
    by (cases room) auto
  from Cons.prems(2) have rok: "room_ok (w d) (h d) (rx, ry, rw, rh)"
    by (simp add: room)
  note i = room_ok_interior [OF rok]
  from Cons.prems(2) have rest: "\<forall>room \<in> set rs. room_ok (w d) (h d) room" by simp
  note same = Cons.IH [OF Cons.prems(1) rest]
  show ?case
    unfolding place_items.simps room prod.case
    apply (rule succeeds_case_prodI)
    apply (rule succeeds_ifI)
     apply (rule randint_bind [OF i(1)])
     apply (rule randint_bind [OF i(2)])
     apply (rule py_get2_bind [OF gen_inv_tiles [OF Cons.prems(1)]])
         apply (simp add: i(4))
        apply (simp add: i(4))
       apply (simp add: i(3))
      apply (simp add: i(3))
     apply (rule succeeds_ifI)
      apply (rule succeeds_bind_inv [OF place_item_ok [OF Cons.prems(1)]])
      apply (clarsimp simp only: prod.case)
    subgoal premises p for u r1 ix r2 iy r3 t d1 r4
    proof -
      from p rest have "\<forall>room \<in> set rs. room_ok (w d1) (h d1) room"
        by (simp add: same_plan_def)
      with p have "succeeds (place_items rs d1 r4) (\<lambda>(d', r'). gen_inv d' \<and> same_plan d1 d'
           \<and> merchant d' = merchant d1)"
        by (intro Cons.IH) simp_all
      then show ?thesis
        apply (rule succeeds_weaken)
        using p apply (auto simp: same_plan_def)
        done
    qed
     apply (rule same)
    apply (rule same)
    done
qed

lemma stock_potions_ok: "succeeds (stock_potions n dep st r) (\<lambda>_. True)"
proof (induction n arbitrary: st r)
  case 0
  show ?case by simp
next
  case (Suc n)
  have r: "(10::int) \<le> 20" "(15::int) \<le> 25" by simp_all
  show ?case
    unfolding stock_potions.simps
    apply (rule randint_bind [OF r(1)])
    apply (rule randint_bind [OF r(2)])
    apply (simp only: Let_def)
    apply (rule Suc.IH)
    done
qed

lemma stock_scrolls_ok: "succeeds (stock_scrolls n st r) (\<lambda>_. True)"
proof (induction n arbitrary: st r)
  case 0
  show ?case by simp
next
  case (Suc n)
  have ne: "SCROLL_EFFECTS \<noteq> []" by (simp add: SCROLL_EFFECTS_def)
  have r: "(30::int) \<le> 50" by simp
  show ?case
    unfolding stock_scrolls.simps
    apply (rule choice_bind [OF ne])
    apply (rule randint_bind [OF r])
    apply (rule Suc.IH)
    done
qed

lemma generate_merchant_stock_ok:
  assumes "0 \<le> dep + 1"
  shows "succeeds (generate_merchant_stock dep r) (\<lambda>_. True)"
proof -
  have r: "(1::int) \<le> 2" by simp
  have tier: "0 \<le> min k (int (length WEAPON_NAMES) - 1)"
    "min k (int (length WEAPON_NAMES) - 1) < int (length WEAPON_NAMES)" if "0 \<le> k" for k
    using that by (simp_all add: WEAPON_NAMES_def)
  show ?thesis
    unfolding generate_merchant_stock_def
    apply (rule randint_bind [OF r])
    apply (rule succeeds_bind_inv [OF stock_potions_ok])
    apply (rule succeeds_case_prodI)
    apply (rule randint_bind [OF assms])
    apply (simp only: Let_def)
    apply (rule py_get_bind)
      apply (erule tier(1))
     apply (erule tier(2))
    apply (rule succeeds_case_prodI)
    apply (rule randint_bind [OF r])
    apply (rule stock_scrolls_ok)
    done
qed

lemma place_merchant_ok:
  assumes "gen_inv d"
  shows "succeeds (place_merchant d r) (\<lambda>(d', r'). gen_inv d' \<and> same_plan d d')"
proof -
  from assms have dep: "0 \<le> depth d + 1" by (simp add: gen_inv_def)
  have ne: "butlast (tl (rooms d)) \<noteq> []" if "length (rooms d) > 2"
  proof
    assume "butlast (tl (rooms d)) = []"
    then have "length (butlast (tl (rooms d))) = 0" by simp
    with that show False by simp
  qed
  have fin: "gen_inv (d\<lparr>merchant := m\<rparr>) \<and> same_plan d (d\<lparr>merchant := m\<rparr>)" for m
    using assms by (simp add: gen_inv_def level_ok_def same_plan_def)
  show ?thesis
    unfolding place_merchant_def
    apply (rule succeeds_ifI)
     apply (rule choice_bind [OF ne])
      apply assumption
     apply (rule succeeds_case_prodI)+
     apply (simp only: Let_def)
     apply (rule succeeds_bind_inv [OF generate_merchant_stock_ok [OF dep]])
     apply (simp add: fin split: prod.split)
    using assms apply (simp add: same_plan_def)
    done
qed

lemma generate_ok:
  assumes "gen_inv d" and "15 \<le> w d" and "11 \<le> h d" and "rooms d = []"
  shows "succeeds (generate F d r) (\<lambda>(d', r').
           gen_inv d' \<and> w d' = w d \<and> h d' = h d \<and> depth d' = depth d
           \<and> rooms d' \<noteq> [] \<and> length (rooms d') \<le> 9)"
proof -
  from randint_range [of 5 9 r] obtain num where
    num: "5 \<le> num" "num \<le> 9" "randint 5 9 r = Inr (num, next_rng r)"
    by auto
  from succeedsD [OF place_rooms_ok [OF assms(1-3), of 200 num "next_rng r"]]
  obtain d1 r2 where
    s1: "place_rooms 200 num d (next_rng r) = Inr (d1, r2)"
    and i1: "gen_inv d1" and p1: "w d1 = w d" "h d1 = h d" "depth d1 = depth d"
    and ne: "rooms d1 \<noteq> []" and le: "int (length (rooms d1)) \<le> max (int (length (rooms d))) num"
    using num(1) by auto
  from succeedsD [OF place_stairs_ok [OF i1 ne]] obtain d2 where
    s2: "place_stairs d1 = Inr d2" and i2: "gen_inv d2" and p2: "same_plan d1 d2"
    by auto
  have "set (tl (rooms d2)) \<subseteq> set (rooms d2)"
    by (cases "rooms d2") auto
  with i2 have rs2: "\<forall>room \<in> set (tl (rooms d2)). room_ok (w d2) (h d2) room"
    by (auto simp: gen_inv_def)
  from succeedsD [OF place_monsters_ok [OF i2 rs2, of F r2]] obtain d3 r3 where
    s3: "place_monsters F (tl (rooms d2)) d2 r2 = Inr (d3, r3)"
    and i3: "gen_inv d3" and p3: "same_plan d2 d3"
    by auto
  from i3 have rs3: "\<forall>room \<in> set (rooms d3). room_ok (w d3) (h d3) room"
    by (simp add: gen_inv_def)
  from succeedsD [OF place_items_ok [OF i3 rs3, of r3]] obtain d4 r4 where
    s4: "place_items (rooms d3) d3 r3 = Inr (d4, r4)"
    and i4: "gen_inv d4" and p4: "same_plan d3 d4"
    by auto
  from succeedsD [OF place_merchant_ok [OF i4, of r4]] obtain d5 r5 where
    s5: "place_merchant d4 r4 = Inr (d5, r5)"
    and i5: "gen_inv d5" and p5: "same_plan d4 d5"
    by auto
  have g: "generate F d r = Inr (d5, r5)"
    by (simp add: generate_def num(3) s1 s2 s3 s4 s5)
  from le num(2) assms(4) have "length (rooms d1) \<le> 9" by simp
  with p1 p2 p3 p4 p5 ne i5 show ?thesis
    unfolding g by (simp add: same_plan_def)
qed

lemma gen_inv_empty:
  assumes "0 \<le> dep"
  shows "gen_inv \<lparr> w = width, h = height, depth = dep,
         tiles = replicate (nat height) (replicate (nat width) WALL),
         revealed = replicate (nat height) (replicate (nat width) False),
         visible = replicate (nat height) (replicate (nat width) False),
         rooms = [], monsters = [], items = [], stairs_pos = None, merchant = None \<rparr>"
  using assms by (simp add: gen_inv_def level_ok_def grid_ok_def)

lemma DungeonLevel_ok:
  assumes "15 \<le> width" and "11 \<le> height" and "0 \<le> dep"
  shows "succeeds (DungeonLevel F width height dep r) (\<lambda>(d', r').
           gen_inv d' \<and> w d' = width \<and> h d' = height \<and> depth d' = dep
           \<and> rooms d' \<noteq> [] \<and> length (rooms d') \<le> 9)"
  unfolding DungeonLevel_def
  apply (rule succeeds_weaken)
   apply (rule generate_ok [OF gen_inv_empty [OF assms(3)]])
  using assms apply auto
  done

text \<open>
  On a grid narrower than 8 or lower than 7 the first attempt draws \<open>rw \<ge> 5\<close> and
  \<open>rh \<ge> 4\<close>, so that \<open>randint(1, w - rw - 2)\<close> or \<open>randint(1, h - rh - 2)\<close> has an empty
  range.
\<close>

lemma place_rooms_small:
  assumes "w d < 8 \<or> h d < 7" and "int (length (rooms d)) < num"
  shows "place_rooms (Suc n) num d r = Inl ValueError"
proof -
  from randint_range [of 5 12 r] obtain rw where
    rw: "5 \<le> rw" "randint 5 12 r = Inr (rw, next_rng r)"
    by auto
  from randint_range [of 4 8 "next_rng r"] obtain rh where
    rh: "4 \<le> rh" "randint 4 8 (next_rng r) = Inr (rh, next_rng (next_rng r))"
    by auto
  show ?thesis
  proof (cases "w d - rw - 2 < 1")
    case True
    then have "randint 1 (w d - rw - 2) (next_rng (next_rng r)) = Inl ValueError"
      by (simp add: randint_def)
    with assms(2) show ?thesis
      by (simp add: rw(2) rh(2))
  next
    case False
    then have "1 \<le> w d - rw - 2" by simp
    from randint_range [OF this, of "next_rng (next_rng r)"] obtain rx where
      rx: "randint 1 (w d - rw - 2) (next_rng (next_rng r))
             = Inr (rx, next_rng (next_rng (next_rng r)))"
      by auto
    from False rw(1) assms(1) have "h d < 7" by linarith
    with rh(1) have "randint 1 (h d - rh - 2) (next_rng (next_rng (next_rng r))) = Inl ValueError"
      by (simp add: randint_def)
    with assms(2) show ?thesis
      by (simp add: rw(2) rh(2) rx)
  qed
qed

lemma DungeonLevel_small:
  assumes "width < 8 \<or> height < 7"
  shows "DungeonLevel F width height dep r = Inl ValueError"
proof -
  from randint_range [of 5 9 r] obtain num where
    num: "5 \<le> num" "randint 5 9 r = Inr (num, next_rng r)"
    by auto
  have n: "(200::nat) = Suc 199" by simp
  show ?thesis
    unfolding DungeonLevel_def generate_def num(2) bindE_Inr prod.case n
    apply (subst place_rooms_small)
    using assms num(1) apply simp_all
    done
qed

text \<open>Had the loop placed no room, \<open>self.rooms[-1]\<close> would raise.\<close>

lemma place_stairs_no_room: "rooms d = [] \<Longrightarrow> place_stairs d = Inl IndexError"
  by (simp add: place_stairs_def py_get_def py_index_def)




end
